theory Spec2Isabelle
  imports Complex_Main
begin

section \<open>Floating-point values\<close>

text \<open>
  The prices handled by \<^verbatim>\<open>ZigZagClass\<close> are Python floats: the sentinels
  \<^verbatim>\<open>-np.inf\<close> and \<^verbatim>\<open>np.inf\<close>, NaN (tested with \<^verbatim>\<open>pd.isna\<close>) and ordinary numbers.
  A float is modelled as one of the three IEEE special values or an exact real number:
  rounding and overflow of finite values are not modelled, and negative zero is
  identified with zero. Comparisons and arithmetic on the special values follow
  IEEE 754: every comparison with NaN is false, \<open>inf - inf\<close> and \<open>inf / inf\<close> are NaN.
\<close>

datatype fl = NaN | NInf | PInf | Fin real

fun fl_lt :: "fl \<Rightarrow> fl \<Rightarrow> bool" where
  "fl_lt (Fin a) (Fin b) = (a < b)"
| "fl_lt (Fin a) PInf = True"
| "fl_lt NInf (Fin b) = True"
| "fl_lt NInf PInf = True"
| "fl_lt _ _ = False"

fun fl_le :: "fl \<Rightarrow> fl \<Rightarrow> bool" where
  "fl_le (Fin a) (Fin b) = (a \<le> b)"
| "fl_le (Fin a) PInf = True"
| "fl_le NInf (Fin b) = True"
| "fl_le NInf PInf = True"
| "fl_le NInf NInf = True"
| "fl_le PInf PInf = True"
| "fl_le _ _ = False"

definition fl_gt :: "fl \<Rightarrow> fl \<Rightarrow> bool" where
  "fl_gt a b = fl_lt b a"

definition fl_ge :: "fl \<Rightarrow> fl \<Rightarrow> bool" where
  "fl_ge a b = fl_le b a"

definition isna :: "fl \<Rightarrow> bool" where
  "isna x = (x = NaN)"

fun fl_neg :: "fl \<Rightarrow> fl" where
  "fl_neg NaN = NaN"
| "fl_neg NInf = PInf"
| "fl_neg PInf = NInf"
| "fl_neg (Fin a) = Fin (- a)"

fun fl_sub :: "fl \<Rightarrow> fl \<Rightarrow> fl" where
  "fl_sub (Fin a) (Fin b) = Fin (a - b)"
| "fl_sub (Fin a) PInf = NInf"
| "fl_sub (Fin a) NInf = PInf"
| "fl_sub PInf (Fin b) = PInf"
| "fl_sub PInf NInf = PInf"
| "fl_sub NInf (Fin b) = NInf"
| "fl_sub NInf PInf = NInf"
| "fl_sub _ _ = NaN"

text \<open>
  IEEE division. The equations for a zero divisor are what numpy's \<^verbatim>\<open>float64\<close>
  computes (with a warning); a Python float raises instead, see \<open>pct_change\<close>.
\<close>

fun fl_div :: "fl \<Rightarrow> fl \<Rightarrow> fl" where
  "fl_div (Fin a) (Fin b) =
     (if b \<noteq> 0 then Fin (a / b)
      else if 0 < a then PInf else if a < 0 then NInf else NaN)"
| "fl_div (Fin a) PInf = Fin 0"
| "fl_div (Fin a) NInf = Fin 0"
| "fl_div PInf (Fin b) = (if 0 \<le> b then PInf else NInf)"
| "fl_div NInf (Fin b) = (if 0 \<le> b then NInf else PInf)"
| "fl_div _ _ = NaN"

text \<open>The absolute value, used only to state the threshold property.\<close>

fun fl_abs :: "fl \<Rightarrow> fl" where
  "fl_abs NaN = NaN"
| "fl_abs NInf = PInf"
| "fl_abs PInf = PInf"
| "fl_abs (Fin a) = Fin \<bar>a\<bar>"

section \<open>Data model\<close>

datatype extreme = High | Low

datatype error = ValueError | TypeError | ZeroDivisionError | KeyError | IndexError

text \<open>
  The scalar type the caller feeds. The class is annotated with \<^verbatim>\<open>float\<close>, and a Python
  float raises \<^verbatim>\<open>ZeroDivisionError\<close> on a zero divisor; the function \<^verbatim>\<open>ZigZag\<close> feeds the
  elements of numpy arrays, which divide by zero without raising.
\<close>

datatype numeric = PyFloat | NpFloat64

text \<open>How a call ends: with a return value or with an exception.\<close>

datatype 'a outcome = Returned 'a | Raised error

text \<open>
  \<^verbatim>\<open>historic_dic\<close>: a dictionary of five parallel lists. The columns \<^verbatim>\<open>ZigZag\<close> and
  \<^verbatim>\<open>type\<close> hold \<^verbatim>\<open>np.nan\<close> until a pivot is confirmed at that position; in the
  \<^verbatim>\<open>type\<close> column \<open>None\<close> stands for \<^verbatim>\<open>np.nan\<close>.
\<close>

record 'i historic =
  col_index :: "'i list"
  col_High :: "fl list"
  col_Low :: "fl list"
  col_ZigZag :: "fl list"
  col_type :: "extreme option list"

text \<open>
  One row of \<^verbatim>\<open>debug_dic\<close> (a dictionary of thirteen lists that are only ever
  appended to together, so it is kept as a list of rows). The last two fields hold
  \<open>None\<close> for the \<^verbatim>\<open>np.nan\<close> written when no pivot was confirmed.
\<close>

record 'i debug_row =
  d_index :: 'i
  d_High :: fl
  d_Low :: fl
  d_swing_high :: fl
  d_swing_high_idx :: "'i option"
  d_swing_low :: fl
  d_swing_low_idx :: "'i option"
  d_candidate_price :: "fl option"
  d_candidate_idx :: "'i option"
  d_confirmed :: bool
  d_last_confirmed_type :: "extreme option"
  d_last_confirmed_price :: "fl option"
  d_last_confirmed_idx :: "'i option"

text \<open>The attributes of a \<^verbatim>\<open>ZigZagClass\<close> object; \<open>None\<close> is Python's \<^verbatim>\<open>None\<close>.\<close>

record 'i engine =
  pct :: fl
  debug :: bool
  last_confirmed_type :: "extreme option"
  last_confirmed_price :: "fl option"
  last_confirmed_idx :: "'i option"
  confirmed :: bool
  swing_high :: fl
  swing_high_idx :: "'i option"
  swing_low :: fl
  swing_low_idx :: "'i option"
  candidate_price :: "fl option"
  candidate_idx :: "'i option"
  historic_dic :: "'i historic"
  index_to_pos :: "'i \<rightharpoonup> nat"
  debug_dic :: "'i debug_row list"

text \<open>A confirmed pivot: the three arguments of \<^verbatim>\<open>_confirm_pivot\<close>.\<close>

record 'i pivot =
  p_price :: fl
  p_index :: 'i
  p_type :: extreme

text \<open>One observation of the input stream.\<close>

record 'i bar =
  bar_high :: fl
  bar_low :: fl
  bar_idx :: 'i

section \<open>The operations of \<^verbatim>\<open>ZigZagClass\<close>\<close>

text \<open>\<^verbatim>\<open>__init__\<close>: rejects \<^verbatim>\<open>pct <= 0\<close>, else builds the initial object.\<close>

definition init :: "fl \<Rightarrow> bool \<Rightarrow> error + 'i engine" where
  "init p d =
     (if fl_le p (Fin 0) then Inl ValueError
      else Inr \<lparr> pct = p, debug = d,
             last_confirmed_type = None, last_confirmed_price = None,
             last_confirmed_idx = None, confirmed = False,
             swing_high = NInf, swing_high_idx = None,
             swing_low = PInf, swing_low_idx = None,
             candidate_price = None, candidate_idx = None,
             historic_dic = \<lparr> col_index = [], col_High = [], col_Low = [],
                              col_ZigZag = [], col_type = [] \<rparr>,
             index_to_pos = Map.empty, debug_dic = [] \<rparr>)"

text \<open>\<^verbatim>\<open>_update_df\<close>: appends one entry to every column and records its position.\<close>

definition update_df :: "fl \<Rightarrow> fl \<Rightarrow> 'i \<Rightarrow> 'i engine \<Rightarrow> 'i engine" where
  "update_df hi lo i s =
     (let h = historic_dic s;
          h' = h \<lparr> col_index := col_index h @ [i], col_High := col_High h @ [hi],
                  col_Low := col_Low h @ [lo], col_ZigZag := col_ZigZag h @ [NaN],
                  col_type := col_type h @ [None] \<rparr>
      in s \<lparr> historic_dic := h',
             index_to_pos := (index_to_pos s)(i \<mapsto> length (col_index h') - 1) \<rparr>)"

text \<open>\<^verbatim>\<open>_debug_state\<close>: appends a snapshot of the attributes.\<close>

definition debug_state :: "fl \<Rightarrow> fl \<Rightarrow> 'i \<Rightarrow> 'i engine \<Rightarrow> 'i engine" where
  "debug_state hi lo i s =
     s \<lparr> debug_dic := debug_dic s @
          [\<lparr> d_index = i, d_High = hi, d_Low = lo,
             d_swing_high = swing_high s, d_swing_high_idx = swing_high_idx s,
             d_swing_low = swing_low s, d_swing_low_idx = swing_low_idx s,
             d_candidate_price = candidate_price s, d_candidate_idx = candidate_idx s,
             d_confirmed = confirmed s, d_last_confirmed_type = last_confirmed_type s,
             d_last_confirmed_price = (if confirmed s then last_confirmed_price s else None),
             d_last_confirmed_idx = (if confirmed s then last_confirmed_idx s else None) \<rparr>] \<rparr>"

text \<open>
  \<^verbatim>\<open>_pct_change\<close>: \<^verbatim>\<open>(new - reference) / reference\<close>. The subtraction cannot raise;
  the division raises for a Python float when the reference is zero.
\<close>

definition pct_change :: "numeric \<Rightarrow> fl \<Rightarrow> fl \<Rightarrow> error + fl" where
  "pct_change m reference new =
     (if reference = Fin 0 \<and> m = PyFloat then Inl ZeroDivisionError
      else Inr (fl_div (fl_sub new reference) reference))"

text \<open>\<^verbatim>\<open>_reset_swings\<close>: puts the side just confirmed back to its sentinel, at this bar.\<close>

definition reset_swings :: "extreme \<Rightarrow> fl \<Rightarrow> fl \<Rightarrow> 'i \<Rightarrow> 'i engine \<Rightarrow> 'i engine" where
  "reset_swings conf hi lo i s =
     (case conf of
        High \<Rightarrow> s \<lparr> swing_high := NInf, swing_high_idx := Some i \<rparr>
      | Low \<Rightarrow> s \<lparr> swing_low := PInf, swing_low_idx := Some i \<rparr>)"

text \<open>\<^verbatim>\<open>_update_swings\<close>, with the source's order of tests in each of its three cases.\<close>

definition update_swings ::
  "extreme option \<Rightarrow> fl \<Rightarrow> fl \<Rightarrow> 'i \<Rightarrow> 'i engine \<Rightarrow> 'i engine" where
  "update_swings conf hi lo i s =
     (case conf of
        None \<Rightarrow>
          (let s1 = (if fl_gt hi (swing_high s)
                     then s \<lparr> swing_high := hi, swing_high_idx := Some i \<rparr> else s)
           in if fl_lt lo (swing_low s1)
              then s1 \<lparr> swing_low := lo, swing_low_idx := Some i \<rparr> else s1)
      | Some High \<Rightarrow>
          (if fl_lt lo (swing_low s)
           then reset_swings High hi lo i (s \<lparr> swing_low := lo, swing_low_idx := Some i \<rparr>)
           else if fl_gt hi (swing_high s)
           then s \<lparr> swing_high := hi, swing_high_idx := Some i \<rparr>
           else s)
      | Some Low \<Rightarrow>
          (if fl_lt (swing_high s) hi
           then reset_swings Low hi lo i (s \<lparr> swing_high := hi, swing_high_idx := Some i \<rparr>)
           else if fl_lt lo (swing_low s)
           then s \<lparr> swing_low := lo, swing_low_idx := Some i \<rparr>
           else s))"

text \<open>
  \<^verbatim>\<open>_confirm_pivot\<close>. The dictionary lookup raises \<^verbatim>\<open>KeyError\<close> for an unknown index
  (\<^verbatim>\<open>None\<close> is never a key), each of the two list assignments raises \<^verbatim>\<open>IndexError\<close>
  out of range; what was assigned before an exception stays assigned.
\<close>

definition confirm_pivot ::
  "fl \<Rightarrow> 'i option \<Rightarrow> extreme \<Rightarrow> 'i engine \<Rightarrow> 'i engine \<times> error option" where
  "confirm_pivot price i extreme_type s =
     (case (case i of None \<Rightarrow> None | Some k \<Rightarrow> index_to_pos s k) of
        None \<Rightarrow> (s, Some KeyError)
      | Some pos \<Rightarrow>
          if length (col_ZigZag (historic_dic s)) \<le> pos then (s, Some IndexError)
          else
            let s1 = s \<lparr> historic_dic := (historic_dic s)
                        \<lparr> col_ZigZag := (col_ZigZag (historic_dic s))[pos := price] \<rparr> \<rparr>
            in if length (col_type (historic_dic s1)) \<le> pos then (s1, Some IndexError)
               else
                 (s1 \<lparr> historic_dic := (historic_dic s1)
                        \<lparr> col_type := (col_type (historic_dic s1))[pos := Some extreme_type] \<rparr>,
                      last_confirmed_type := Some extreme_type,
                      last_confirmed_price := Some price,
                      last_confirmed_idx := i,
                      confirmed := True,
                      candidate_price := None, candidate_idx := None \<rparr>, None))"

text \<open>Two statements in sequence: the second runs only if the first did not raise.\<close>

definition seq ::
  "'s \<times> error option \<Rightarrow> ('s \<Rightarrow> 's \<times> error option) \<Rightarrow> 's \<times> error option" where
  "seq r f = (case r of (s, Some e) \<Rightarrow> (s, Some e) | (s, None) \<Rightarrow> f s)"

text \<open>
  The comparison \<^verbatim>\<open>a < b\<close> of two index attributes: Python raises \<^verbatim>\<open>TypeError\<close>
  when one of them is still \<^verbatim>\<open>None\<close>.
\<close>

definition idx_lt :: "('i::linorder) option \<Rightarrow> 'i option \<Rightarrow> error + bool" where
  "idx_lt a b =
     (case (a, b) of (Some x, Some y) \<Rightarrow> Inr (x < y) | _ \<Rightarrow> Inl TypeError)"

text \<open>
  The body of \<^verbatim>\<open>if change >= self.pct:\<close> followed by the assignment of the candidate,
  as it is written in each of the four branches of \<^verbatim>\<open>update\<close>: the pivot that is
  confirmed and the candidate are both the swing extreme of the side \<open>t\<close>.
\<close>

definition side_price :: "extreme \<Rightarrow> 'i engine \<Rightarrow> fl" where
  "side_price t s = (case t of High \<Rightarrow> swing_high s | Low \<Rightarrow> swing_low s)"

definition side_idx :: "extreme \<Rightarrow> 'i engine \<Rightarrow> 'i option" where
  "side_idx t s = (case t of High \<Rightarrow> swing_high_idx s | Low \<Rightarrow> swing_low_idx s)"

definition confirm_and_candidate ::
  "extreme \<Rightarrow> fl \<Rightarrow> fl \<Rightarrow> fl \<Rightarrow> 'i \<Rightarrow> 'i engine \<Rightarrow> 'i engine \<times> error option" where
  "confirm_and_candidate t change hi lo i s =
     seq (if fl_ge change (pct s)
          then seq (confirm_pivot (side_price t s) (side_idx t s) t s)
                   (\<lambda>s1. (reset_swings t hi lo i s1, None))
          else (s, None))
         (\<lambda>s2. (s2 \<lparr> candidate_price := Some (side_price t s2),
                      candidate_idx := side_idx t s2 \<rparr>, None))"

text \<open>Step 3 of \<^verbatim>\<open>update\<close> while no pivot is confirmed (lines 227 to 244).\<close>

definition update_first ::
  "numeric \<Rightarrow> fl \<Rightarrow> fl \<Rightarrow> ('i::linorder) \<Rightarrow> 'i engine \<Rightarrow> 'i engine \<times> error option" where
  "update_first m hi lo i s =
     (case idx_lt (swing_low_idx s) (swing_high_idx s) of
        Inl e \<Rightarrow> (s, Some e)
      | Inr True \<Rightarrow>
          (case pct_change m (swing_low s) (swing_high s) of
             Inl e \<Rightarrow> (s, Some e)
           | Inr change \<Rightarrow> confirm_and_candidate Low change hi lo i s)
      | Inr False \<Rightarrow>
          (case idx_lt (swing_high_idx s) (swing_low_idx s) of
             Inl e \<Rightarrow> (s, Some e)
           | Inr True \<Rightarrow>
               (case pct_change m (swing_high s) (swing_low s) of
                  Inl e \<Rightarrow> (s, Some e)
                | Inr change \<Rightarrow> confirm_and_candidate High change hi lo i s)
           | Inr False \<Rightarrow> (s, None)))"

text \<open>Step 3 when the last confirmed pivot is a High (lines 249 to 255).\<close>

definition update_after_high ::
  "numeric \<Rightarrow> fl \<Rightarrow> fl \<Rightarrow> 'i \<Rightarrow> 'i engine \<Rightarrow> 'i engine \<times> error option" where
  "update_after_high m hi lo i s =
     (case pct_change m (swing_low s) (swing_high s) of
        Inl e \<Rightarrow> (s, Some e)
      | Inr change \<Rightarrow> confirm_and_candidate Low change hi lo i s)"

text \<open>Step 3 when the last confirmed pivot is a Low (lines 260 to 266).\<close>

definition update_after_low ::
  "numeric \<Rightarrow> fl \<Rightarrow> fl \<Rightarrow> 'i \<Rightarrow> 'i engine \<Rightarrow> 'i engine \<times> error option" where
  "update_after_low m hi lo i s =
     (case pct_change m (swing_high s) (swing_low s) of
        Inl e \<Rightarrow> (s, Some e)
      | Inr c \<Rightarrow> confirm_and_candidate High (fl_neg c) hi lo i s)"

text \<open>
  \<^verbatim>\<open>update\<close>. Its only \<^verbatim>\<open>return\<close> statement is the bare one after the validity
  test and the body ends without one, so a call that does not raise returns \<^verbatim>\<open>None\<close>.
  The state is returned in every case, also when the call raises: the attributes
  assigned before the exception keep their new values.
\<close>

definition valid_bar :: "fl \<Rightarrow> fl \<Rightarrow> bool" where
  "valid_bar hi lo = (\<not> (isna hi \<or> isna lo \<or> fl_lt hi lo))"

definition update ::
  "numeric \<Rightarrow> fl \<Rightarrow> fl \<Rightarrow> ('i::linorder) \<Rightarrow> 'i engine
     \<Rightarrow> 'i engine \<times> 'i pivot option outcome" where
  "update m hi lo i s =
     (let s1 = update_df hi lo i s in
      if isna hi \<or> isna lo \<or> fl_lt hi lo then (s1, Returned None)
      else
        let s2 = update_swings (last_confirmed_type s1) hi lo i s1;
            s3 = s2 \<lparr> confirmed := False \<rparr>
        in case (case last_confirmed_type s3 of
                   None \<Rightarrow> update_first m hi lo i s3
                 | Some High \<Rightarrow> update_after_high m hi lo i s3
                 | Some Low \<Rightarrow> update_after_low m hi lo i s3) of
             (s4, Some e) \<Rightarrow> (s4, Raised e)
           | (s4, None) \<Rightarrow>
               (if debug s4 then debug_state hi lo i s4 else s4, Returned None))"

section \<open>The series of pivots\<close>






section \<open>Streams of bars\<close>

text \<open>
  Feeding one bar: the call \<^verbatim>\<open>zz.update(high, low, idx)\<close>, keeping the object. A caller
  that catches an exception goes on with the object as the failed call left it.
\<close>

definition step :: "numeric \<Rightarrow> ('i::linorder) engine \<Rightarrow> 'i bar \<Rightarrow> 'i engine" where
  "step m s b = fst (update m (bar_high b) (bar_low b) (bar_idx b) s)"

fun run :: "numeric \<Rightarrow> ('i::linorder) engine \<Rightarrow> 'i bar list \<Rightarrow> 'i engine" where
  "run m s [] = s"
| "run m s (b # bs) = run m (step m s b) bs"

text \<open>
  The pivot confirmed by one call, read from the object after the call. A call on a
  valid bar clears \<^verbatim>\<open>self.confirmed\<close> (line 226) before anything can raise, and only
  \<^verbatim>\<open>_confirm_pivot\<close> sets it again, together with the three \<^verbatim>\<open>last_confirmed\<close>
  attributes; a call on an invalid bar returns before line 226 and confirms nothing.
\<close>

definition confirmed_by :: "numeric \<Rightarrow> ('i::linorder) engine \<Rightarrow> 'i bar \<Rightarrow> 'i pivot option" where
  "confirmed_by m s b =
     (let s' = step m s b in
      if valid_bar (bar_high b) (bar_low b) \<and> confirmed s'
      then (case (last_confirmed_price s', last_confirmed_idx s', last_confirmed_type s') of
              (Some p, Some i, Some t) \<Rightarrow> Some \<lparr> p_price = p, p_index = i, p_type = t \<rparr>
            | _ \<Rightarrow> None)
      else None)"

text \<open>The pivots confirmed while a stream is fed, in the order of their confirmation.\<close>

fun confirmations :: "numeric \<Rightarrow> ('i::linorder) engine \<Rightarrow> 'i bar list \<Rightarrow> 'i pivot list" where
  "confirmations m s [] = []"
| "confirmations m s (b # bs) =
     (case confirmed_by m s b of None \<Rightarrow> [] | Some p \<Rightarrow> [p]) @ confirmations m (step m s b) bs"


section \<open>Notions used to state the properties\<close>

text \<open>
  The object at the start of step 3 of \<^verbatim>\<open>update\<close> on a valid bar: the bar is recorded,
  the swings are updated and \<^verbatim>\<open>self.confirmed\<close> is cleared.
\<close>

definition tracked :: "fl \<Rightarrow> fl \<Rightarrow> 'i \<Rightarrow> 'i engine \<Rightarrow> 'i engine" where
  "tracked hi lo i s =
     (update_swings (last_confirmed_type s) hi lo i (update_df hi lo i s)) \<lparr> confirmed := False \<rparr>"

text \<open>Step 3 of \<^verbatim>\<open>update\<close>: the branch chosen by the type of the last confirmed pivot.\<close>

definition decide ::
  "numeric \<Rightarrow> fl \<Rightarrow> fl \<Rightarrow> ('i::linorder) \<Rightarrow> 'i engine \<Rightarrow> 'i engine \<times> error option" where
  "decide m hi lo i s =
     (case last_confirmed_type s of
        None \<Rightarrow> update_first m hi lo i s
      | Some High \<Rightarrow> update_after_high m hi lo i s
      | Some Low \<Rightarrow> update_after_low m hi lo i s)"

text \<open>A sequence of pivot types in which no two neighbours are equal.\<close>

fun alternates :: "extreme list \<Rightarrow> bool" where
  "alternates (a # b # ts) = (a \<noteq> b \<and> alternates (b # ts))"
| "alternates _ = True"

text \<open>The same, for a sequence that continues after a pivot already confirmed.\<close>

fun alt_from :: "extreme option \<Rightarrow> extreme list \<Rightarrow> bool" where
  "alt_from prev [] = True"
| "alt_from prev (t # ts) = (prev \<noteq> Some t \<and> alt_from (Some t) ts)"


text \<open>The opposite side, and the sentinel that \<^verbatim>\<open>_reset_swings\<close> writes for a side.\<close>

fun other :: "extreme \<Rightarrow> extreme" where
  "other High = Low"
| "other Low = High"

definition sentinel :: "extreme \<Rightarrow> fl" where
  "sentinel t = (case t of High \<Rightarrow> NInf | Low \<Rightarrow> PInf)"

text \<open>
  \<open>examined m s t c\<close>: step 3 of \<^verbatim>\<open>update\<close>, run on the object \<open>s\<close>, reaches the test
  \<^verbatim>\<open>change >= self.pct\<close> of the branch that confirms side \<open>t\<close>, with \<open>c\<close> the value of
  \<^verbatim>\<open>change\<close>.
\<close>

definition examined :: "numeric \<Rightarrow> ('i::linorder) engine \<Rightarrow> extreme \<Rightarrow> fl \<Rightarrow> bool" where
  "examined m s t c =
     (case last_confirmed_type s of
        None \<Rightarrow>
          (t = Low \<and> idx_lt (swing_low_idx s) (swing_high_idx s) = Inr True
             \<and> pct_change m (swing_low s) (swing_high s) = Inr c)
          \<or> (t = High \<and> idx_lt (swing_low_idx s) (swing_high_idx s) = Inr False
             \<and> idx_lt (swing_high_idx s) (swing_low_idx s) = Inr True
             \<and> pct_change m (swing_high s) (swing_low s) = Inr c)
      | Some High \<Rightarrow> t = Low \<and> pct_change m (swing_low s) (swing_high s) = Inr c
      | Some Low \<Rightarrow>
          t = High \<and> (case pct_change m (swing_high s) (swing_low s) of
                         Inl e \<Rightarrow> False | Inr c' \<Rightarrow> c = fl_neg c'))"

text \<open>
  The attributes that the threshold logic reads and writes: the threshold, the last
  confirmed pivot and the two swing extremes.
\<close>

definition view :: "'i engine \<Rightarrow> fl \<times> extreme option \<times> fl option \<times> 'i option \<times> fl \<times> 'i option \<times> fl \<times> 'i option" where
  "view s = (pct s, last_confirmed_type s, last_confirmed_price s, last_confirmed_idx s,
             swing_high s, swing_high_idx s, swing_low s, swing_low_idx s)"

text \<open>The three bars of the scenario with threshold 0.05.\<close>

definition scenario_bars :: "int bar list" where
  "scenario_bars =
     [\<lparr> bar_high = Fin 100, bar_low = Fin 99, bar_idx = 0 \<rparr>,
      \<lparr> bar_high = Fin 110, bar_low = Fin 109, bar_idx = 1 \<rparr>,
      \<lparr> bar_high = Fin 96, bar_low = Fin 95, bar_idx = 2 \<rparr>]"

text \<open>The object of the scenario: freshly constructed with \<^verbatim>\<open>pct=0.05\<close>.\<close>

definition scenario_engine :: "int engine" where
  "scenario_engine = projr (init (Fin (5 / 100)) False)"


text \<open>
  \<open>known s k\<close>: the index \<open>k\<close> is a key of \<^verbatim>\<open>_index_to_pos\<close> and its position lies inside
  the \<^verbatim>\<open>ZigZag\<close> and \<^verbatim>\<open>type\<close> columns, so that \<^verbatim>\<open>_confirm_pivot\<close> on it does not raise.
\<close>

definition known :: "'i engine \<Rightarrow> 'i option \<Rightarrow> bool" where
  "known s k =
     (case k of
        None \<Rightarrow> False
      | Some j \<Rightarrow>
          (case index_to_pos s j of
             None \<Rightarrow> False
           | Some pos \<Rightarrow> pos < length (col_ZigZag (historic_dic s))
                        \<and> pos < length (col_type (historic_dic s))))"

text \<open>
  The bookkeeping of an object is consistent: the columns have one length, every swing
  index that is set is known, and both are set once a pivot has been confirmed. Every
  object reached from a constructed one is consistent (\<open>consistent_run\<close> below).
\<close>

definition consistent :: "'i engine \<Rightarrow> bool" where
  "consistent s =
     (length (col_ZigZag (historic_dic s)) = length (col_index (historic_dic s))
      \<and> length (col_type (historic_dic s)) = length (col_index (historic_dic s))
      \<and> (swing_high_idx s = None \<or> known s (swing_high_idx s))
      \<and> (swing_low_idx s = None \<or> known s (swing_low_idx s))
      \<and> (last_confirmed_type s = None \<or> (known s (swing_high_idx s) \<and> known s (swing_low_idx s))))"

text \<open>What \<open>known\<close> depends on.\<close>

definition shape :: "'i engine \<Rightarrow> ('i \<rightharpoonup> nat) \<times> nat \<times> nat \<times> nat" where
  "shape s = (index_to_pos s, length (col_index (historic_dic s)),
              length (col_ZigZag (historic_dic s)), length (col_type (historic_dic s)))"

text \<open>
  Everything in an object except the history and the position table: the attributes
  that decide what later calls do, once the bookkeeping is consistent.
\<close>


definition core :: "'i engine \<Rightarrow>
    (fl \<times> bool \<times> extreme option \<times> fl option \<times> 'i option \<times> bool)
    \<times> (fl \<times> 'i option \<times> fl \<times> 'i option)
    \<times> (fl option \<times> 'i option \<times> 'i debug_row list)" where
  "core s = ((pct s, debug s, last_confirmed_type s, last_confirmed_price s,
              last_confirmed_idx s, confirmed s),
             (swing_high s, swing_high_idx s, swing_low s, swing_low_idx s),
             (candidate_price s, candidate_idx s, debug_dic s))"

text \<open>
  What step 3 of \<^verbatim>\<open>update\<close> does before its test \<^verbatim>\<open>change >= self.pct\<close>: it raises, or
  takes no branch (\<open>Inr None\<close>), or reaches the test for the side \<open>u\<close> with the value
  \<open>c\<close> of \<^verbatim>\<open>change\<close>.
\<close>


definition branch :: "numeric \<Rightarrow> ('i::linorder) engine \<Rightarrow> error + (extreme \<times> fl) option" where
  "branch m s =
     (case last_confirmed_type s of
        None \<Rightarrow>
          (case idx_lt (swing_low_idx s) (swing_high_idx s) of
             Inl e \<Rightarrow> Inl e
           | Inr True \<Rightarrow>
               (case pct_change m (swing_low s) (swing_high s) of
                  Inl e \<Rightarrow> Inl e | Inr c \<Rightarrow> Inr (Some (Low, c)))
           | Inr False \<Rightarrow>
               (case idx_lt (swing_high_idx s) (swing_low_idx s) of
                  Inl e \<Rightarrow> Inl e
                | Inr True \<Rightarrow>
                    (case pct_change m (swing_high s) (swing_low s) of
                       Inl e \<Rightarrow> Inl e | Inr c \<Rightarrow> Inr (Some (High, c)))
                | Inr False \<Rightarrow> Inr None))
      | Some High \<Rightarrow>
          (case pct_change m (swing_low s) (swing_high s) of
             Inl e \<Rightarrow> Inl e | Inr c \<Rightarrow> Inr (Some (Low, c)))
      | Some Low \<Rightarrow>
          (case pct_change m (swing_high s) (swing_low s) of
             Inl e \<Rightarrow> Inl e | Inr c \<Rightarrow> Inr (Some (High, fl_neg c))))"



text \<open>
  The state before any pivot is confirmed in which both swing indices are the same and no
  candidate has been set.
\<close>

definition undecided :: "'i engine \<Rightarrow> bool" where
  "undecided s =
     (last_confirmed_type s = None \<and> swing_low_idx s = swing_high_idx s
      \<and> candidate_price s = None \<and> candidate_idx s = None)"

text \<open>A finite, strictly positive price.\<close>

definition pos_fin :: "fl \<Rightarrow> bool" where
  "pos_fin x = (case x of Fin a \<Rightarrow> 0 < a | _ \<Rightarrow> False)"

text \<open>A bar whose high and low are finite and strictly positive.\<close>

definition positive_bar :: "'i bar \<Rightarrow> bool" where
  "positive_bar b = (pos_fin (bar_high b) \<and> pos_fin (bar_low b))"

text \<open>
  The swing state right after construction: no pivot confirmed and both swings at their
  sentinels.
\<close>

definition fresh :: "'i engine \<Rightarrow> bool" where
  "fresh s = (\<not> fl_le (pct s) (Fin 0) \<and> last_confirmed_type s = None
              \<and> swing_high s = NInf \<and> swing_low s = PInf)"

text \<open>
  The swing state once a valid bar with positive prices has been seen: before the first
  pivot both swings hold prices, afterwards the swing on the side opposite to the last
  confirmed pivot holds a price and the other one holds a price or its sentinel.
\<close>

definition settled :: "'i engine \<Rightarrow> bool" where
  "settled s =
     (\<not> fl_le (pct s) (Fin 0) \<and>
      (case last_confirmed_type s of
         None \<Rightarrow> pos_fin (swing_high s) \<and> pos_fin (swing_low s)
                  \<and> fl_le (swing_low s) (swing_high s)
       | Some High \<Rightarrow> pos_fin (swing_low s) \<and> (swing_high s = NInf \<or> pos_fin (swing_high s))
       | Some Low \<Rightarrow> pos_fin (swing_high s) \<and> (swing_low s = PInf \<or> pos_fin (swing_low s))))"

text \<open>
  A stream of three falling bars with negative prices:
  (high -1, low -2) at 0, (high -3, low -4) at 1, (high -5, low -6) at 2.
\<close>

definition negative_bars :: "int bar list" where
  "negative_bars =
     [\<lparr> bar_high = Fin (- 1), bar_low = Fin (- 2), bar_idx = 0 \<rparr>,
      \<lparr> bar_high = Fin (- 3), bar_low = Fin (- 4), bar_idx = 1 \<rparr>,
      \<lparr> bar_high = Fin (- 5), bar_low = Fin (- 6), bar_idx = 2 \<rparr>]"

text \<open>
  The threshold property between two pivot prices \<open>p\<close> and \<open>q\<close> as the specification
  writes it: \<open>|q - p| / p >= c\<close>.
\<close>

definition moved :: "fl \<Rightarrow> fl \<Rightarrow> fl \<Rightarrow> bool" where
  "moved p q c = fl_ge (fl_div (fl_abs (fl_sub q p)) p) c"

text \<open>
  Along a sequence of pivots, every pivot with a finite, strictly positive price is
  followed by a pivot whose price has moved by the threshold \<open>c\<close> relative to it.
\<close>

fun threshold_chain :: "fl \<Rightarrow> 'i pivot list \<Rightarrow> bool" where
  "threshold_chain c (x # y # zs) =
     ((pos_fin (p_price x) \<longrightarrow> moved (p_price x) (p_price y) c) \<and> threshold_chain c (y # zs))"
| "threshold_chain c _ = True"

text \<open>The same, for a sequence that continues after a pivot price already confirmed.\<close>

fun threshold_from :: "fl option \<Rightarrow> fl \<Rightarrow> 'i pivot list \<Rightarrow> bool" where
  "threshold_from prev c [] = True"
| "threshold_from prev c (x # xs) =
     ((case prev of None \<Rightarrow> True | Some p \<Rightarrow> pos_fin p \<longrightarrow> moved p (p_price x) c)
      \<and> threshold_from (Some (p_price x)) c xs)"

text \<open>
  The running extreme on the side opposite to the last confirmed pivot is already a
  threshold away from that pivot, when the pivot's price is finite and strictly positive:
  after a High at \<open>h\<close>, \<open>(h - swing_low) / h >= pct\<close>; after a Low at \<open>l\<close>,
  \<open>(swing_high - l) / l >= pct\<close>. Before the first pivot, the swings are at their
  sentinels or \<open>swing_low <= swing_high\<close>.
\<close>

definition far :: "'i engine \<Rightarrow> bool" where
  "far s =
     (\<not> fl_le (pct s) (Fin 0) \<and>
      (case last_confirmed_type s of
         None \<Rightarrow> last_confirmed_price s = None
                  \<and> ((swing_high s = NInf \<and> swing_low s = PInf)
                      \<or> fl_le (swing_low s) (swing_high s))
       | Some High \<Rightarrow>
           (case last_confirmed_price s of
              None \<Rightarrow> True
            | Some h \<Rightarrow> pos_fin h \<longrightarrow> fl_ge (fl_div (fl_sub h (swing_low s)) h) (pct s))
       | Some Low \<Rightarrow>
           (case last_confirmed_price s of
              None \<Rightarrow> True
            | Some l \<Rightarrow> pos_fin l \<longrightarrow> fl_ge (fl_div (fl_sub (swing_high s) l) l) (pct s))))"

section \<open>The structure of one call of \<^verbatim>\<open>update\<close>\<close>

lemmas eval_defs = init_def update_def update_df_def update_swings_def reset_swings_def
  confirm_pivot_def confirm_and_candidate_def seq_def idx_lt_def side_price_def side_idx_def
  update_first_def update_after_high_def update_after_low_def pct_change_def debug_state_def
  step_def confirmed_by_def valid_bar_def isna_def fl_gt_def fl_ge_def Let_def

lemma update_invalid:
  "\<not> valid_bar hi lo \<Longrightarrow> update m hi lo i s = (update_df hi lo i s, Returned None)"
  by (auto simp: update_def valid_bar_def Let_def)

lemma last_type_update_df [simp]:
  "last_confirmed_type (update_df hi lo i s) = last_confirmed_type s"
  by (simp add: update_df_def Let_def)

lemma last_type_update_swings [simp]:
  "last_confirmed_type (update_swings c hi lo i s) = last_confirmed_type s"
  by (simp add: update_swings_def reset_swings_def Let_def split: option.splits extreme.splits)

lemma last_type_tracked [simp]:
  "last_confirmed_type (tracked hi lo i s) = last_confirmed_type s"
  by (simp add: tracked_def)

lemma confirmed_tracked [simp]: "\<not> confirmed (tracked hi lo i s)"
  by (simp add: tracked_def)

lemma update_valid:
  "valid_bar hi lo \<Longrightarrow>
   update m hi lo i s =
     (case decide m hi lo i (tracked hi lo i s) of
        (s4, Some e) \<Rightarrow> (s4, Raised e)
      | (s4, None) \<Rightarrow> (if debug s4 then debug_state hi lo i s4 else s4, Returned None))"
  by (simp add: update_def valid_bar_def Let_def decide_def tracked_def
           split: option.splits extreme.splits)

lemma confirm_pivot_result:
  "confirm_pivot price k t s = (s', r) \<Longrightarrow>
     (r = None \<longrightarrow> confirmed s' \<and> last_confirmed_type s' = Some t
         \<and> last_confirmed_price s' = Some price \<and> last_confirmed_idx s' = k \<and> k \<noteq> None) \<and>
     (r \<noteq> None \<longrightarrow> confirmed s' = confirmed s \<and> last_confirmed_type s' = last_confirmed_type s
         \<and> last_confirmed_price s' = last_confirmed_price s
         \<and> last_confirmed_idx s' = last_confirmed_idx s)"
  by (auto simp: confirm_pivot_def Let_def split: option.splits if_splits)

lemma cac_result:
  "confirm_and_candidate t c hi lo i s = (s', r) \<Longrightarrow> \<not> confirmed s \<Longrightarrow>
     (if confirmed s'
      then last_confirmed_type s' = Some t \<and> last_confirmed_price s' = Some (side_price t s)
         \<and> last_confirmed_idx s' = side_idx t s \<and> side_idx t s \<noteq> None \<and> fl_ge c (pct s)
      else last_confirmed_type s' = last_confirmed_type s
         \<and> last_confirmed_price s' = last_confirmed_price s
         \<and> last_confirmed_idx s' = last_confirmed_idx s)"
  unfolding confirm_and_candidate_def seq_def
  by (auto simp: reset_swings_def split: option.splits if_splits prod.splits extreme.splits
           dest!: confirm_pivot_result)

lemma decide_result:
  "decide m hi lo i s = (s', r) \<Longrightarrow> \<not> confirmed s \<Longrightarrow>
     (if confirmed s'
      then (\<exists>t. last_confirmed_type s' = Some t \<and> last_confirmed_type s \<noteq> Some t
              \<and> last_confirmed_price s' = Some (side_price t s)
              \<and> last_confirmed_idx s' = side_idx t s \<and> side_idx t s \<noteq> None)
      else last_confirmed_type s' = last_confirmed_type s
         \<and> last_confirmed_price s' = last_confirmed_price s
         \<and> last_confirmed_idx s' = last_confirmed_idx s)"
  unfolding decide_def update_first_def update_after_high_def update_after_low_def
  by (auto split: option.splits extreme.splits sum.splits bool.splits if_splits
           dest!: cac_result)

lemma step_invalid_type:
  "\<not> valid_bar (bar_high b) (bar_low b) \<Longrightarrow>
     last_confirmed_type (step m s b) = last_confirmed_type s"
  by (simp add: step_def update_invalid)

lemma last_fields_debug_state [simp]:
  "last_confirmed_type (debug_state hi lo i s) = last_confirmed_type s"
  "last_confirmed_price (debug_state hi lo i s) = last_confirmed_price s"
  "last_confirmed_idx (debug_state hi lo i s) = last_confirmed_idx s"
  "confirmed (debug_state hi lo i s) = confirmed s"
  by (simp_all add: debug_state_def)

lemma confirmed_by_Some:
  assumes "confirmed_by m s b = Some p"
  shows "last_confirmed_type (step m s b) = Some (p_type p) \<and>
         last_confirmed_type s \<noteq> Some (p_type p)"
proof -
  from assms have v: "valid_bar (bar_high b) (bar_low b)" and c: "confirmed (step m s b)"
    by (auto simp: confirmed_by_def Let_def split: if_splits)
  obtain s4 r where d: "decide m (bar_high b) (bar_low b) (bar_idx b)
      (tracked (bar_high b) (bar_low b) (bar_idx b) s) = (s4, r)"
    by (cases "decide m (bar_high b) (bar_low b) (bar_idx b)
      (tracked (bar_high b) (bar_low b) (bar_idx b) s)")
  from decide_result [OF d] v c d assms show ?thesis
    by (auto simp: confirmed_by_def step_def update_valid Let_def
             split: option.splits if_splits)
qed

lemma confirmed_by_None:
  assumes "confirmed_by m s b = None"
  shows "last_confirmed_type (step m s b) = last_confirmed_type s"
proof (cases "valid_bar (bar_high b) (bar_low b)")
  case False
  then show ?thesis by (rule step_invalid_type)
next
  case v: True
  obtain s4 r where d: "decide m (bar_high b) (bar_low b) (bar_idx b)
      (tracked (bar_high b) (bar_low b) (bar_idx b) s) = (s4, r)"
    by (cases "decide m (bar_high b) (bar_low b) (bar_idx b)
      (tracked (bar_high b) (bar_low b) (bar_idx b) s)")
  from decide_result [OF d] v d assms show ?thesis
    by (auto simp: confirmed_by_def step_def update_valid Let_def
             split: option.splits if_splits)
qed

lemma confirm_pivot_cases:
  "(\<exists>e. snd (confirm_pivot p k t s) = Some e \<and> view (fst (confirm_pivot p k t s)) = view s
        \<and> confirmed (fst (confirm_pivot p k t s)) = confirmed s
        \<and> candidate_price (fst (confirm_pivot p k t s)) = candidate_price s
        \<and> candidate_idx (fst (confirm_pivot p k t s)) = candidate_idx s)
   \<or> (snd (confirm_pivot p k t s) = None \<and> k \<noteq> None
        \<and> view (fst (confirm_pivot p k t s)) =
            (pct s, Some t, Some p, k, swing_high s, swing_high_idx s, swing_low s, swing_low_idx s)
        \<and> confirmed (fst (confirm_pivot p k t s)))"
  by (auto simp: confirm_pivot_def view_def Let_def split: option.splits)

lemma cac_cases:
  assumes "confirm_and_candidate t c hi lo i s = (s', r)" and "\<not> confirmed s"
  shows "(\<not> confirmed s' \<and> view s' = view s)
       \<or> (confirmed s' \<and> r = None \<and> fl_ge c (pct s) \<and> side_idx t s \<noteq> None
           \<and> pct s' = pct s
           \<and> last_confirmed_type s' = Some t
           \<and> last_confirmed_price s' = Some (side_price t s)
           \<and> last_confirmed_idx s' = side_idx t s
           \<and> side_price t s' = sentinel t \<and> side_idx t s' = Some i
           \<and> side_price (other t) s' = side_price (other t) s
           \<and> side_idx (other t) s' = side_idx (other t) s)"
  using assms confirm_pivot_cases [of "side_price t s" "side_idx t s" t s]
  unfolding confirm_and_candidate_def seq_def
  by (cases "confirm_pivot (side_price t s) (side_idx t s) t s"; cases t)
     (auto simp: view_def side_price_def side_idx_def reset_swings_def sentinel_def
           split: if_splits option.splits)

lemma decide_cases:
  assumes "decide m hi lo i s = (s', r)" and "\<not> confirmed s"
  shows "(\<not> confirmed s' \<and> view s' = view s)
       \<or> (\<exists>t c. examined m s t c \<and> fl_ge c (pct s)
           \<and> confirmed s' \<and> r = None \<and> side_idx t s \<noteq> None
           \<and> pct s' = pct s
           \<and> last_confirmed_type s' = Some t
           \<and> last_confirmed_price s' = Some (side_price t s)
           \<and> last_confirmed_idx s' = side_idx t s
           \<and> side_price t s' = sentinel t \<and> side_idx t s' = Some i
           \<and> side_price (other t) s' = side_price (other t) s
           \<and> side_idx (other t) s' = side_idx (other t) s)"
proof (cases "last_confirmed_type s")
  case None
  show ?thesis
  proof (cases "idx_lt (swing_low_idx s) (swing_high_idx s)")
    case (Inl e)
    with None assms show ?thesis by (simp add: decide_def update_first_def)
  next
    case (Inr up)
    show ?thesis
    proof (cases up)
      case True
      show ?thesis
      proof (cases "pct_change m (swing_low s) (swing_high s)")
        case (Inl e)
        with None Inr True assms show ?thesis by (simp add: decide_def update_first_def)
      next
        case c: (Inr c)
        with None Inr True assms have "confirm_and_candidate Low c hi lo i s = (s', r)"
          by (simp add: decide_def update_first_def)
        from cac_cases [OF this assms(2)] None Inr True c show ?thesis
          by (auto simp: examined_def)
      qed
    next
      case False
      show ?thesis
      proof (cases "idx_lt (swing_high_idx s) (swing_low_idx s)")
        case (Inl e)
        with None Inr False assms show ?thesis by (simp add: decide_def update_first_def)
      next
        case down: (Inr down)
        show ?thesis
        proof (cases down)
          case dF: False
          with None Inr False down assms show ?thesis
            by (simp add: decide_def update_first_def)
        next
          case dT: True
          show ?thesis
          proof (cases "pct_change m (swing_high s) (swing_low s)")
            case (Inl e)
            with None Inr False down dT assms show ?thesis
              by (simp add: decide_def update_first_def)
          next
            case c: (Inr c)
            with None Inr False down dT assms
            have "confirm_and_candidate High c hi lo i s = (s', r)"
              by (simp add: decide_def update_first_def)
            from cac_cases [OF this assms(2)] None Inr False down dT c show ?thesis
              by (auto simp: examined_def)
          qed
        qed
      qed
    qed
  qed
next
  case (Some lt)
  show ?thesis
  proof (cases lt)
    case High
    show ?thesis
    proof (cases "pct_change m (swing_low s) (swing_high s)")
      case (Inl e)
      with Some High assms show ?thesis by (simp add: decide_def update_after_high_def)
    next
      case c: (Inr c)
      with Some High assms have "confirm_and_candidate Low c hi lo i s = (s', r)"
        by (simp add: decide_def update_after_high_def)
      from cac_cases [OF this assms(2)] Some High c show ?thesis
        by (auto simp: examined_def)
    qed
  next
    case Low
    show ?thesis
    proof (cases "pct_change m (swing_high s) (swing_low s)")
      case (Inl e)
      with Some Low assms show ?thesis by (simp add: decide_def update_after_low_def)
    next
      case c: (Inr c)
      with Some Low assms have "confirm_and_candidate High (fl_neg c) hi lo i s = (s', r)"
        by (simp add: decide_def update_after_low_def)
      from cac_cases [OF this assms(2)] Some Low c show ?thesis
        by (auto simp: examined_def)
    qed
  qed
qed

lemma view_debug_state [simp]:
  "view (debug_state hi lo i s) = view s"
  "side_price t (debug_state hi lo i s) = side_price t s"
  "side_idx t (debug_state hi lo i s) = side_idx t s"
  "pct (debug_state hi lo i s) = pct s"
  by (simp_all add: view_def debug_state_def side_price_def side_idx_def split: extreme.splits)

lemma view_update_df [simp]:
  "view (update_df hi lo i s) = view s"
  "confirmed (update_df hi lo i s) = confirmed s"
  by (simp_all add: view_def update_df_def Let_def)

lemma step_invalid:
  assumes "\<not> valid_bar (bar_high b) (bar_low b)"
  shows "view (step m s b) = view s" and "confirmed_by m s b = None"
  using assms by (simp_all add: step_def update_invalid confirmed_by_def)

lemma step_valid:
  fixes s :: "('i::linorder) engine" and b :: "'i bar" and m :: numeric
  assumes v: "valid_bar (bar_high b) (bar_low b)"
  defines "s3 \<equiv> tracked (bar_high b) (bar_low b) (bar_idx b) s"
  shows "(confirmed_by m s b = None \<and> view (step m s b) = view s3)
       \<or> (\<exists>t c k. examined m s3 t c \<and> fl_ge c (pct s3) \<and> side_idx t s3 = Some k
           \<and> confirmed_by m s b = Some \<lparr> p_price = side_price t s3, p_index = k, p_type = t \<rparr>
           \<and> snd (update m (bar_high b) (bar_low b) (bar_idx b) s) = Returned None
           \<and> pct (step m s b) = pct s3
           \<and> last_confirmed_type (step m s b) = Some t
           \<and> last_confirmed_price (step m s b) = Some (side_price t s3)
           \<and> last_confirmed_idx (step m s b) = Some k
           \<and> side_price t (step m s b) = sentinel t
           \<and> side_idx t (step m s b) = Some (bar_idx b)
           \<and> side_price (other t) (step m s b) = side_price (other t) s3
           \<and> side_idx (other t) (step m s b) = side_idx (other t) s3)"
proof -
  obtain s4 r where d: "decide m (bar_high b) (bar_low b) (bar_idx b) s3 = (s4, r)"
    by (cases "decide m (bar_high b) (bar_low b) (bar_idx b) s3")
  have nc: "\<not> confirmed s3" by (simp add: s3_def)
  have st: "step m s b = (case r of Some e \<Rightarrow> s4
              | None \<Rightarrow> if debug s4 then debug_state (bar_high b) (bar_low b) (bar_idx b) s4 else s4)"
    and out: "snd (update m (bar_high b) (bar_low b) (bar_idx b) s)
                = (case r of Some e \<Rightarrow> Raised e | None \<Rightarrow> Returned None)"
    using d v by (auto simp: step_def update_valid s3_def split: option.splits)
  have vw: "view (step m s b) = view s4" and cf: "confirmed (step m s b) = confirmed s4"
    and sp: "\<And>t. side_price t (step m s b) = side_price t s4"
    and si: "\<And>t. side_idx t (step m s b) = side_idx t s4"
    by (auto simp: st split: option.splits)
  from decide_cases [OF d nc] show ?thesis
  proof
    assume a: "\<not> confirmed s4 \<and> view s4 = view s3"
    then have "confirmed_by m s b = None"
      using cf by (simp add: confirmed_by_def)
    with a vw show ?thesis by simp
  next
    assume "\<exists>t c. examined m s3 t c \<and> fl_ge c (pct s3)
           \<and> confirmed s4 \<and> r = None \<and> side_idx t s3 \<noteq> None
           \<and> pct s4 = pct s3
           \<and> last_confirmed_type s4 = Some t
           \<and> last_confirmed_price s4 = Some (side_price t s3)
           \<and> last_confirmed_idx s4 = side_idx t s3
           \<and> side_price t s4 = sentinel t \<and> side_idx t s4 = Some (bar_idx b)
           \<and> side_price (other t) s4 = side_price (other t) s3
           \<and> side_idx (other t) s4 = side_idx (other t) s3"
    then obtain t c k where e: "examined m s3 t c" "fl_ge c (pct s3)"
      "confirmed s4" "r = None" "side_idx t s3 = Some k" "pct s4 = pct s3"
      "last_confirmed_type s4 = Some t" "last_confirmed_price s4 = Some (side_price t s3)"
      "last_confirmed_idx s4 = Some k" "side_price t s4 = sentinel t"
      "side_idx t s4 = Some (bar_idx b)" "side_price (other t) s4 = side_price (other t) s3"
      "side_idx (other t) s4 = side_idx (other t) s3"
      by auto
    have p: "pct (step m s b) = pct s4" "last_confirmed_type (step m s b) = last_confirmed_type s4"
      "last_confirmed_price (step m s b) = last_confirmed_price s4"
      "last_confirmed_idx (step m s b) = last_confirmed_idx s4"
      using vw by (simp_all add: view_def)
    have "confirmed_by m s b = Some \<lparr> p_price = side_price t s3, p_index = k, p_type = t \<rparr>"
      using v cf e p by (simp add: confirmed_by_def)
    with e p sp si out show ?thesis by auto
  qed
qed

lemma confirmed_by_returns:
  assumes "confirmed_by m s b = Some p"
  shows "snd (update m (bar_high b) (bar_low b) (bar_idx b) s) = Returned None
       \<and> confirmed (step m s b)
       \<and> last_confirmed_price (step m s b) = Some (p_price p)
       \<and> last_confirmed_idx (step m s b) = Some (p_index p)
       \<and> last_confirmed_type (step m s b) = Some (p_type p)"
proof -
  from assms have v: "valid_bar (bar_high b) (bar_low b)" and c: "confirmed (step m s b)"
    by (auto simp: confirmed_by_def Let_def split: if_splits)
  from step_valid [OF v, of m s] assms c show ?thesis by auto
qed

lemma update_outcome:
  "snd (update m hi lo i s) = Returned None \<or> (\<exists>e. snd (update m hi lo i s) = Raised e)"
  by (auto simp: update_def Let_def split: prod.splits option.splits)

lemma scenario_engine_init: "init (Fin (5 / 100)) False = Inr scenario_engine"
  by (simp add: scenario_engine_def init_def)

section \<open>Consistency of the bookkeeping\<close>

lemma consistent_init: "init p d = Inr s \<Longrightarrow> consistent s"
  by (auto simp: init_def consistent_def split: if_splits)

lemma known_update_df:
  assumes "consistent s"
  shows "known (update_df hi lo i s) (Some i)"
    and "known s k \<Longrightarrow> known (update_df hi lo i s) k"
  using assms
  by (auto simp: known_def consistent_def update_df_def Let_def split: option.splits)

lemma consistent_update_df: "consistent s \<Longrightarrow> consistent (update_df hi lo i s)"
  unfolding consistent_def [of "update_df hi lo i s"]
  using known_update_df(2) [of s _ hi lo i]
  by (auto simp: consistent_def update_df_def Let_def)

lemma known_shape: "shape s' = shape s \<Longrightarrow> known s' k = known s k"
  by (auto simp: shape_def known_def split: option.splits)

lemma consistent_shape_view:
  "shape s' = shape s \<Longrightarrow> view s' = view s \<Longrightarrow> consistent s' = consistent s"
  using known_shape [of s' s]
  by (simp add: consistent_def) (simp add: shape_def view_def)

lemma shape_update_swings [simp]: "shape (update_swings c hi lo i s) = shape s"
  by (simp add: shape_def update_swings_def reset_swings_def Let_def
           split: option.splits extreme.splits)

lemma shape_reset_swings [simp]: "shape (reset_swings t hi lo i s) = shape s"
  by (simp add: shape_def reset_swings_def split: extreme.splits)

lemma shape_debug_state [simp]: "shape (debug_state hi lo i s) = shape s"
  by (simp add: shape_def debug_state_def)

lemma shape_confirm_pivot [simp]: "shape (fst (confirm_pivot p k t s)) = shape s"
  by (simp add: shape_def confirm_pivot_def Let_def split: option.splits)

lemma shape_cac [simp]: "shape (fst (confirm_and_candidate t c hi lo i s)) = shape s"
  using shape_confirm_pivot [of "side_price t s" "side_idx t s" t s]
  unfolding confirm_and_candidate_def seq_def
  by (cases "confirm_pivot (side_price t s) (side_idx t s) t s")
     (auto simp: shape_def reset_swings_def split: option.splits extreme.splits)

lemma shape_decide [simp]: "shape (fst (decide m hi lo i s)) = shape s"
  by (simp add: decide_def update_first_def update_after_high_def update_after_low_def
           split: option.splits extreme.splits sum.splits bool.splits)

lemma confirm_pivot_known:
  "known s k \<Longrightarrow> snd (confirm_pivot p k t s) = None"
  by (auto simp: known_def confirm_pivot_def Let_def split: option.splits)

lemma cac_known:
  "known s (side_idx t s) \<Longrightarrow> snd (confirm_and_candidate t c hi lo i s) = None"
  using confirm_pivot_known [of s "side_idx t s" "side_price t s" t]
  unfolding confirm_and_candidate_def seq_def
  by (cases "confirm_pivot (side_price t s) (side_idx t s) t s") (auto split: option.splits)

lemma cac_candidate:
  "confirm_and_candidate t c hi lo i s = (s', None) \<Longrightarrow>
     candidate_price s' = Some (side_price t s') \<and> candidate_idx s' = side_idx t s'"
  unfolding confirm_and_candidate_def seq_def
  by (auto simp: side_price_def side_idx_def split: option.splits if_splits prod.splits extreme.splits)

lemma swing_idx_update_swings:
  "swing_high_idx (update_swings c hi lo i s) = swing_high_idx s
     \<or> swing_high_idx (update_swings c hi lo i s) = Some i"
  "swing_low_idx (update_swings c hi lo i s) = swing_low_idx s
     \<or> swing_low_idx (update_swings c hi lo i s) = Some i"
  by (auto simp: update_swings_def reset_swings_def Let_def split: option.splits extreme.splits)

lemma shape_tracked: "shape (tracked hi lo i s) = shape (update_df hi lo i s)"
proof -
  have "shape (tracked hi lo i s)
          = shape (update_swings (last_confirmed_type s) hi lo i (update_df hi lo i s))"
    by (simp add: tracked_def shape_def)
  then show ?thesis by simp
qed


lemma swing_idx_update_df [simp]:
  "swing_high_idx (update_df hi lo i s) = swing_high_idx s"
  "swing_low_idx (update_df hi lo i s) = swing_low_idx s"
  by (simp_all add: update_df_def Let_def)

lemma swing_idx_tracked:
  "swing_high_idx (tracked hi lo i s) = swing_high_idx s
     \<or> swing_high_idx (tracked hi lo i s) = Some i"
  "swing_low_idx (tracked hi lo i s) = swing_low_idx s
     \<or> swing_low_idx (tracked hi lo i s) = Some i"
  using swing_idx_update_swings [of "last_confirmed_type s" hi lo i "update_df hi lo i s"]
  by (simp_all add: tracked_def)

lemma known_tracked:
  assumes "consistent s"
  shows "known (tracked hi lo i s) (Some i)"
    and "known s k \<Longrightarrow> known (tracked hi lo i s) k"
proof -
  have e: "\<And>k. known (tracked hi lo i s) k = known (update_df hi lo i s) k"
    by (rule known_shape) (rule shape_tracked)
  show "known (tracked hi lo i s) (Some i)"
    using known_update_df(1) [OF assms] e by simp
  show "known s k \<Longrightarrow> known (tracked hi lo i s) k"
    using known_update_df(2) [OF assms] e by simp
qed

lemma consistent_lengths:
  "consistent s \<Longrightarrow> shape s' = shape s \<Longrightarrow>
     length (col_ZigZag (historic_dic s')) = length (col_index (historic_dic s'))
     \<and> length (col_type (historic_dic s')) = length (col_index (historic_dic s'))"
  by (simp add: consistent_def shape_def)


lemma consistent_tracked:
  assumes c: "consistent s"
  shows "consistent (tracked hi lo i s)"
proof -
  let ?t = "tracked hi lo i s"
  have len: "length (col_ZigZag (historic_dic ?t)) = length (col_index (historic_dic ?t))
     \<and> length (col_type (historic_dic ?t)) = length (col_index (historic_dic ?t))"
    using consistent_update_df [OF c] shape_tracked by (rule consistent_lengths)
  have kh: "swing_high_idx ?t = None \<or> known ?t (swing_high_idx ?t)"
    using swing_idx_tracked(1) [of hi lo i s] known_tracked [OF c, where hi=hi and lo=lo and i=i] c
    by (auto simp: consistent_def)
  have kl: "swing_low_idx ?t = None \<or> known ?t (swing_low_idx ?t)"
    using swing_idx_tracked(2) [of hi lo i s] known_tracked [OF c, where hi=hi and lo=lo and i=i] c
    by (auto simp: consistent_def)
  have kt: "last_confirmed_type ?t = None
            \<or> (known ?t (swing_high_idx ?t) \<and> known ?t (swing_low_idx ?t))"
  proof (cases "last_confirmed_type s")
    case None
    then show ?thesis by simp
  next
    case (Some t)
    then have "known s (swing_high_idx s)" "known s (swing_low_idx s)"
      using c by (auto simp: consistent_def)
    then show ?thesis
      using swing_idx_tracked [of hi lo i s] known_tracked [OF c, where hi=hi and lo=lo and i=i]
      by auto
  qed
  show ?thesis
    unfolding consistent_def using len kh kl kt by blast
qed


lemma examined_idx:
  "examined m s t c \<Longrightarrow> last_confirmed_type s = None \<Longrightarrow>
     swing_high_idx s \<noteq> None \<and> swing_low_idx s \<noteq> None"
proof -
  assume e: "examined m s t c" and n: "last_confirmed_type s = None"
  from e n have "(\<exists>b. idx_lt (swing_low_idx s) (swing_high_idx s) = Inr b)"
    by (auto simp: examined_def)
  then show ?thesis
    by (cases "swing_low_idx s"; cases "swing_high_idx s") (simp_all add: idx_lt_def)
qed

lemma consistent_decide:
  assumes c: "consistent s" and k: "known s (Some i)" and nc: "\<not> confirmed s"
  shows "consistent (fst (decide m hi lo i s))"
proof -
  obtain s' r where d: "decide m hi lo i s = (s', r)"
    by (cases "decide m hi lo i s")
  have sh: "shape s' = shape s" using shape_decide [of m hi lo i s] d by simp
  have kn: "\<And>k. known s' k = known s k" using sh by (rule known_shape)
  from decide_cases [OF d nc] have "consistent s'"
  proof
    assume "\<not> confirmed s' \<and> view s' = view s"
    with sh c consistent_shape_view [of s' s] show ?thesis by simp
  next
    assume "\<exists>t c. examined m s t c \<and> fl_ge c (pct s)
           \<and> confirmed s' \<and> r = None \<and> side_idx t s \<noteq> None
           \<and> pct s' = pct s
           \<and> last_confirmed_type s' = Some t
           \<and> last_confirmed_price s' = Some (side_price t s)
           \<and> last_confirmed_idx s' = side_idx t s
           \<and> side_price t s' = sentinel t \<and> side_idx t s' = Some i
           \<and> side_price (other t) s' = side_price (other t) s
           \<and> side_idx (other t) s' = side_idx (other t) s"
    then obtain t c' where e: "examined m s t c'"
      and si: "side_idx t s' = Some i"
      and so: "side_idx (other t) s' = side_idx (other t) s"
      by auto
    have both: "swing_high_idx s \<noteq> None \<and> swing_low_idx s \<noteq> None"
    proof (cases "last_confirmed_type s")
      case None
      with e show ?thesis by (rule examined_idx)
    next
      case (Some u)
      with c show ?thesis by (auto simp: consistent_def known_def split: option.splits)
    qed
    then have ks: "known s (swing_high_idx s)" "known s (swing_low_idx s)"
      using c by (auto simp: consistent_def)
    have k1: "known s' (swing_high_idx s')"
      using si so k ks kn by (cases t) (simp_all add: side_idx_def)
    have k2: "known s' (swing_low_idx s')"
      using si so k ks kn by (cases t) (simp_all add: side_idx_def)
    have len: "length (col_ZigZag (historic_dic s')) = length (col_index (historic_dic s'))
       \<and> length (col_type (historic_dic s')) = length (col_index (historic_dic s'))"
      using c sh by (rule consistent_lengths)
    show ?thesis unfolding consistent_def using len k1 k2 by blast
  qed
  with d show ?thesis by simp
qed

lemma consistent_debug_state: "consistent (debug_state hi lo i s) = consistent s"
  by (rule consistent_shape_view) simp_all


lemma consistent_step:
  assumes "consistent s"
  shows "consistent (step m s b)"
proof (cases "valid_bar (bar_high b) (bar_low b)")
  case False
  with assms show ?thesis by (simp add: step_def update_invalid consistent_update_df)
next
  case True
  let ?s3 = "tracked (bar_high b) (bar_low b) (bar_idx b) s"
  obtain s4 r where d: "decide m (bar_high b) (bar_low b) (bar_idx b) ?s3 = (s4, r)"
    by (cases "decide m (bar_high b) (bar_low b) (bar_idx b) ?s3")
  have "consistent (fst (decide m (bar_high b) (bar_low b) (bar_idx b) ?s3))"
    using consistent_tracked [OF assms] known_tracked(1) [OF assms]
    by (intro consistent_decide) simp_all
  then have "consistent s4" using d by simp
  moreover have "step m s b = s4
      \<or> step m s b = debug_state (bar_high b) (bar_low b) (bar_idx b) s4"
    using True d by (simp add: step_def update_valid split: option.splits)
  ultimately show ?thesis by (auto simp: consistent_debug_state)
qed

lemma consistent_run: "consistent s \<Longrightarrow> consistent (run m s bs)"
  by (induction bs arbitrary: s) (simp_all add: consistent_step)

section \<open>How one call moves the swing extremes\<close>

lemma step_update:
  "step m s \<lparr> bar_high = hi, bar_low = lo, bar_idx = i \<rparr> = fst (update m hi lo i s)"
  by (simp add: step_def)

lemma tracked_new_low:
  assumes "last_confirmed_type s = Some High" and "fl_lt lo (swing_low s)"
  shows "swing_high (tracked hi lo i s) = NInf \<and> swing_high_idx (tracked hi lo i s) = Some i
       \<and> swing_low (tracked hi lo i s) = lo \<and> swing_low_idx (tracked hi lo i s) = Some i"
  using assms
  by (simp add: tracked_def update_swings_def reset_swings_def update_df_def Let_def)

lemma tracked_new_high:
  assumes "last_confirmed_type s = Some Low" and "fl_lt (swing_high s) hi"
  shows "swing_low (tracked hi lo i s) = PInf \<and> swing_low_idx (tracked hi lo i s) = Some i
       \<and> swing_high (tracked hi lo i s) = hi \<and> swing_high_idx (tracked hi lo i s) = Some i"
  using assms
  by (simp add: tracked_def update_swings_def reset_swings_def update_df_def Let_def)

lemma examined_side:
  "examined m s t c \<Longrightarrow> last_confirmed_type s = Some u \<Longrightarrow> t = other u"
  by (cases u) (simp_all add: examined_def)

lemma other_side_kept:
  fixes s :: "('i::linorder) engine"
  assumes v: "valid_bar hi lo" and u: "last_confirmed_type s = Some u"
  shows "side_price u (fst (update m hi lo i s)) = side_price u (tracked hi lo i s)
       \<and> side_idx u (fst (update m hi lo i s)) = side_idx u (tracked hi lo i s)"
proof -
  let ?b = "\<lparr> bar_high = hi, bar_low = lo, bar_idx = i \<rparr>"
  let ?s3 = "tracked hi lo i s"
  have v': "valid_bar (bar_high ?b) (bar_low ?b)" using v by simp
  have u3: "last_confirmed_type ?s3 = Some u" using u by simp
  from step_valid [OF v', of m s]
  have "(view (step m s ?b) = view ?s3)
      \<or> (\<exists>t c. examined m ?s3 t c
           \<and> side_price (other t) (step m s ?b) = side_price (other t) ?s3
           \<and> side_idx (other t) (step m s ?b) = side_idx (other t) ?s3)"
    by auto
  then show ?thesis
  proof
    assume "view (step m s ?b) = view ?s3"
    then show ?thesis
      by (cases u) (simp_all add: view_def side_price_def side_idx_def step_def)
  next
    assume "\<exists>t c. examined m ?s3 t c
           \<and> side_price (other t) (step m s ?b) = side_price (other t) ?s3
           \<and> side_idx (other t) (step m s ?b) = side_idx (other t) ?s3"
    then obtain t c where e: "examined m ?s3 t c"
      and p: "side_price (other t) (step m s ?b) = side_price (other t) ?s3"
      and q: "side_idx (other t) (step m s ?b) = side_idx (other t) ?s3"
      by auto
    from examined_side [OF e u3] have "other t = u" by (cases u) simp_all
    with p q show ?thesis by (simp add: step_def)
  qed
qed

lemma fl_gt_not_NInf: "fl_gt hi x \<Longrightarrow> hi \<noteq> NInf"
  by (cases hi; cases x) (simp_all add: fl_gt_def)

lemma fl_lt_not_PInf: "fl_lt lo x \<Longrightarrow> lo \<noteq> PInf"
  by (cases lo; cases x) simp_all

lemma candidate_debug_state [simp]:
  "candidate_price (debug_state hi lo i s) = candidate_price s"
  "candidate_idx (debug_state hi lo i s) = candidate_idx s"
  by (simp_all add: debug_state_def)

lemma decide_after_pivot:
  assumes u: "last_confirmed_type s = Some u"
  shows "decide m hi lo i s =
     (case pct_change m (side_price (other u) s) (side_price u s) of
        Inl e \<Rightarrow> (s, Some e)
      | Inr c \<Rightarrow> confirm_and_candidate (other u)
                   (case u of High \<Rightarrow> c | Low \<Rightarrow> fl_neg c) hi lo i s)"
  using u
  by (cases u) (simp_all add: decide_def update_after_high_def update_after_low_def
                  side_price_def split: sum.splits)

lemma decide_candidate:
  assumes u: "last_confirmed_type s = Some u" and d: "decide m hi lo i s = (s', None)"
  shows "candidate_price s' = Some (side_price (other u) s')
       \<and> candidate_idx s' = side_idx (other u) s'"
proof (cases "pct_change m (side_price (other u) s) (side_price u s)")
  case (Inl e)
  with d u show ?thesis by (simp add: decide_after_pivot)
next
  case (Inr c)
  with d u have "confirm_and_candidate (other u)
                   (case u of High \<Rightarrow> c | Low \<Rightarrow> fl_neg c) hi lo i s = (s', None)"
    by (simp add: decide_after_pivot)
  then show ?thesis by (rule cac_candidate)
qed

lemma decide_returns:
  assumes u: "last_confirmed_type s = Some u" and c: "consistent s"
    and z: "m = NpFloat64 \<or> side_price (other u) s \<noteq> Fin 0"
  shows "snd (decide m hi lo i s) = None"
proof -
  from z obtain ch where p: "pct_change m (side_price (other u) s) (side_price u s) = Inr ch"
    by (auto simp: pct_change_def)
  have "known s (side_idx (other u) s)"
    using c u by (cases u) (auto simp: consistent_def side_idx_def)
  then have "snd (confirm_and_candidate (other u)
                   (case u of High \<Rightarrow> ch | Low \<Rightarrow> fl_neg ch) hi lo i s) = None"
    by (rule cac_known)
  with p u show ?thesis by (simp add: decide_after_pivot)
qed

lemma update_candidate:
  fixes s :: "('i::linorder) engine"
  assumes v: "valid_bar hi lo" and u: "last_confirmed_type s = Some u"
    and r: "update m hi lo i s = (s', Returned r)"
  shows "candidate_price s' = Some (side_price (other u) s')
       \<and> candidate_idx s' = side_idx (other u) s'"
proof -
  obtain s4 e where d: "decide m hi lo i (tracked hi lo i s) = (s4, e)"
    by (cases "decide m hi lo i (tracked hi lo i s)")
  from r v d have e: "e = None"
    and s': "s' = (if debug s4 then debug_state hi lo i s4 else s4)"
    by (auto simp: update_valid split: option.splits)
  have "last_confirmed_type (tracked hi lo i s) = Some u" using u by simp
  from decide_candidate [OF this d [unfolded e]] s' show ?thesis by simp
qed

lemma update_returns:
  fixes s :: "('i::linorder) engine"
  assumes v: "valid_bar hi lo" and u: "last_confirmed_type s = Some u"
    and c: "consistent s"
    and z: "m = NpFloat64 \<or> side_price (other u) (tracked hi lo i s) \<noteq> Fin 0"
  shows "snd (update m hi lo i s) = Returned None"
proof -
  have "last_confirmed_type (tracked hi lo i s) = Some u" using u by simp
  from decide_returns [OF this consistent_tracked [OF c] z]
  have "snd (decide m hi lo i (tracked hi lo i s)) = None" .
  then show ?thesis
    using v by (cases "decide m hi lo i (tracked hi lo i s)") (simp add: update_valid)
qed

section \<open>Later calls do not depend on the history\<close>

lemma core_update_df [simp]: "core (update_df hi lo i s) = core s"
  by (simp add: core_def update_df_def Let_def)

lemma core_debug_state:
  "core s = core t \<Longrightarrow> core (debug_state hi lo i s) = core (debug_state hi lo i t)"
  by (simp add: core_def debug_state_def)


lemma core_update_swings:
  assumes "core s = core t"
  shows "core (update_swings c hi lo i s) = core (update_swings c hi lo i t)"
proof (cases c)
  case None
  with assms show ?thesis
    by (simp add: core_def update_swings_def Let_def)
next
  case (Some u)
  with assms show ?thesis
    by (cases u) (simp_all add: core_def update_swings_def reset_swings_def)
qed


lemma core_confirmed_False:
  "core s = core t \<Longrightarrow> core (s \<lparr> confirmed := False \<rparr>) = core (t \<lparr> confirmed := False \<rparr>)"
  by (simp add: core_def)

lemma core_tracked:
  assumes "core s = core t"
  shows "core (tracked hi lo i s) = core (tracked hi lo i t)"
proof -
  have lt: "last_confirmed_type s = last_confirmed_type t" using assms by (simp add: core_def)
  have "core (update_swings (last_confirmed_type s) hi lo i (update_df hi lo i s))
      = core (update_swings (last_confirmed_type s) hi lo i (update_df hi lo i t))"
    by (rule core_update_swings) (simp add: assms)
  then show ?thesis unfolding tracked_def lt by (rule core_confirmed_False)
qed


lemma core_confirm_pivot:
  assumes "known s k"
  shows "core (fst (confirm_pivot p k t s)) =
           ((pct s, debug s, Some t, Some p, k, True),
            (swing_high s, swing_high_idx s, swing_low s, swing_low_idx s),
            (None, None, debug_dic s))"
proof -
  from assms obtain j pos where k: "k = Some j" and ip: "index_to_pos s j = Some pos"
    and l1: "pos < length (col_ZigZag (historic_dic s))"
    and l2: "pos < length (col_type (historic_dic s))"
    by (cases k; cases "index_to_pos s (the k)") (simp_all add: known_def)
  then show ?thesis
    by (simp add: confirm_pivot_def Let_def core_def)
qed


lemma core_sides:
  "core s = core t \<Longrightarrow> side_price u s = side_price u t \<and> side_idx u s = side_idx u t
     \<and> pct s = pct t \<and> last_confirmed_type s = last_confirmed_type t"
  by (cases u) (simp_all add: core_def side_price_def side_idx_def)

lemma core_set_candidate:
  assumes "core s = core t"
  shows "core (s \<lparr> candidate_price := Some (side_price u s), candidate_idx := side_idx u s \<rparr>)
       = core (t \<lparr> candidate_price := Some (side_price u t), candidate_idx := side_idx u t \<rparr>)"
  using assms by (cases u) (simp_all add: core_def side_price_def side_idx_def)

lemma core_reset_swings:
  assumes "core s = core t"
  shows "core (reset_swings u hi lo i s) = core (reset_swings u hi lo i t)"
  using assms by (cases u) (simp_all add: core_def reset_swings_def)

lemma cac_unfold:
  "confirm_and_candidate u c hi lo i s =
     (if fl_ge c (pct s)
      then (case confirm_pivot (side_price u s) (side_idx u s) u s of
              (s1, Some e) \<Rightarrow> (s1, Some e)
            | (s1, None) \<Rightarrow>
                ((reset_swings u hi lo i s1)
                   \<lparr> candidate_price := Some (side_price u (reset_swings u hi lo i s1)),
                     candidate_idx := side_idx u (reset_swings u hi lo i s1) \<rparr>, None))
      else (s \<lparr> candidate_price := Some (side_price u s), candidate_idx := side_idx u s \<rparr>,
            None))"
  by (simp add: confirm_and_candidate_def seq_def split: prod.splits option.splits)

lemma core_cac:
  assumes e: "core s = core t"
    and ks: "known s (side_idx u s)" and kt: "known t (side_idx u t)"
  shows "core (fst (confirm_and_candidate u c hi lo i s))
       = core (fst (confirm_and_candidate u c hi lo i t))"
proof (cases "fl_ge c (pct s)")
  case False
  then have "\<not> fl_ge c (pct t)" using core_sides [OF e, of u] by simp
  with False core_set_candidate [OF e, of u] show ?thesis
    by (simp add: cac_unfold)
next
  case True
  then have T: "fl_ge c (pct t)" using core_sides [OF e, of u] by simp
  obtain s1 where s1: "confirm_pivot (side_price u s) (side_idx u s) u s = (s1, None)"
    using confirm_pivot_known [OF ks, of "side_price u s" u]
    by (cases "confirm_pivot (side_price u s) (side_idx u s) u s") simp
  obtain t1 where t1: "confirm_pivot (side_price u t) (side_idx u t) u t = (t1, None)"
    using confirm_pivot_known [OF kt, of "side_price u t" u]
    by (cases "confirm_pivot (side_price u t) (side_idx u t) u t") simp
  have "core s1 = core t1"
    using core_confirm_pivot [OF ks, of "side_price u s" u]
          core_confirm_pivot [OF kt, of "side_price u t" u]
          s1 t1 core_sides [OF e, of u] e
    by (simp add: core_def)
  then have "core (reset_swings u hi lo i s1) = core (reset_swings u hi lo i t1)"
    by (rule core_reset_swings)
  then have "core ((reset_swings u hi lo i s1)
                   \<lparr> candidate_price := Some (side_price u (reset_swings u hi lo i s1)),
                     candidate_idx := side_idx u (reset_swings u hi lo i s1) \<rparr>)
           = core ((reset_swings u hi lo i t1)
                   \<lparr> candidate_price := Some (side_price u (reset_swings u hi lo i t1)),
                     candidate_idx := side_idx u (reset_swings u hi lo i t1) \<rparr>)"
    by (rule core_set_candidate)
  then show ?thesis
    using True T s1 t1 by (simp add: cac_unfold)
qed

lemma decide_branch:
  "decide m hi lo i s =
     (case branch m s of
        Inl e \<Rightarrow> (s, Some e)
      | Inr None \<Rightarrow> (s, None)
      | Inr (Some (u, c)) \<Rightarrow> confirm_and_candidate u c hi lo i s)"
  by (simp add: decide_def branch_def update_first_def update_after_high_def
        update_after_low_def split: option.splits extreme.splits sum.splits bool.splits)

lemma branch_known:
  assumes b: "branch m s = Inr (Some (u, c))" and cs: "consistent s"
  shows "known s (side_idx u s)"
proof (cases "last_confirmed_type s")
  case (Some v)
  with cs have "known s (swing_high_idx s) \<and> known s (swing_low_idx s)"
    by (simp add: consistent_def)
  then show ?thesis by (cases u) (simp_all add: side_idx_def)
next
  case None
  with b have "\<exists>bb. idx_lt (swing_low_idx s) (swing_high_idx s) = Inr bb"
    by (simp add: branch_def split: sum.splits)
  then have "swing_high_idx s \<noteq> None \<and> swing_low_idx s \<noteq> None"
    by (cases "swing_low_idx s"; cases "swing_high_idx s") (simp_all add: idx_lt_def)
  with cs have "known s (swing_high_idx s) \<and> known s (swing_low_idx s)"
    by (auto simp: consistent_def)
  then show ?thesis by (cases u) (simp_all add: side_idx_def)
qed

lemma core_branch: "core s = core t \<Longrightarrow> branch m s = branch m t"
  by (simp add: branch_def core_def
        cong: option.case_cong extreme.case_cong sum.case_cong bool.case_cong)

lemma core_decide:
  fixes s t :: "('i::linorder) engine"
  assumes e: "core s = core t" and cs: "consistent s" and ct: "consistent t"
  shows "core (fst (decide m hi lo i s)) = core (fst (decide m hi lo i t))
       \<and> snd (decide m hi lo i s) = snd (decide m hi lo i t)"
proof (cases "branch m s")
  case (Inl er)
  then have "branch m t = Inl er" using core_branch [OF e, of m] by simp
  with Inl e show ?thesis by (simp add: decide_branch)
next
  case (Inr ob)
  then have bt: "branch m t = Inr ob" using core_branch [OF e, of m] by simp
  show ?thesis
  proof (cases ob)
    case None
    with Inr bt e show ?thesis by (simp add: decide_branch)
  next
    case (Some uc)
    obtain u c where uc: "uc = (u, c)" by (cases uc)
    have ks: "known s (side_idx u s)" using Inr Some uc cs by (intro branch_known) simp_all
    have kt: "known t (side_idx u t)" using bt Some uc ct by (intro branch_known) simp_all
    from core_cac [OF e ks kt, of c hi lo i] cac_known [OF ks, of c hi lo i]
         cac_known [OF kt, of c hi lo i] Inr bt Some uc
    show ?thesis by (simp add: decide_branch)
  qed
qed

lemma core_step:
  fixes s t :: "('i::linorder) engine"
  assumes e: "core s = core t" and cs: "consistent s" and ct: "consistent t"
  shows "core (step m s b) = core (step m t b)"
proof (cases "valid_bar (bar_high b) (bar_low b)")
  case False
  with e show ?thesis by (simp add: step_def update_invalid)
next
  case True
  let ?s3 = "tracked (bar_high b) (bar_low b) (bar_idx b) s"
  let ?t3 = "tracked (bar_high b) (bar_low b) (bar_idx b) t"
  obtain s4 r where ds: "decide m (bar_high b) (bar_low b) (bar_idx b) ?s3 = (s4, r)"
    by (cases "decide m (bar_high b) (bar_low b) (bar_idx b) ?s3")
  obtain t4 q where dt: "decide m (bar_high b) (bar_low b) (bar_idx b) ?t3 = (t4, q)"
    by (cases "decide m (bar_high b) (bar_low b) (bar_idx b) ?t3")
  from core_decide [OF core_tracked [OF e, of "bar_high b" "bar_low b" "bar_idx b"]
        consistent_tracked [OF cs, of "bar_high b" "bar_low b" "bar_idx b"]
        consistent_tracked [OF ct, of "bar_high b" "bar_low b" "bar_idx b"],
      of m "bar_high b" "bar_low b" "bar_idx b"] ds dt
  have c4: "core s4 = core t4" and rq: "r = q" by simp_all
  have dbg: "debug s4 = debug t4" using c4 by (simp add: core_def)
  have "core (debug_state (bar_high b) (bar_low b) (bar_idx b) s4)
      = core (debug_state (bar_high b) (bar_low b) (bar_idx b) t4)"
    using c4 by (rule core_debug_state)
  with c4 rq dbg ds dt True show ?thesis
    by (simp add: step_def update_valid split: option.splits)
qed

lemma core_confirmed_by:
  "core (step m s b) = core (step m t b) \<Longrightarrow> confirmed_by m s b = confirmed_by m t b"
  by (simp add: confirmed_by_def core_def Let_def)

lemma core_confirmations:
  fixes s t :: "('i::linorder) engine"
  assumes "core s = core t" and "consistent s" and "consistent t"
  shows "confirmations m s bs = confirmations m t bs"
  using assms
proof (induction bs arbitrary: s t)
  case Nil
  show ?case by simp
next
  case (Cons b bs)
  have c: "core (step m s b) = core (step m t b)"
    using Cons.prems by (rule core_step)
  have "confirmations m (step m s b) bs = confirmations m (step m t b) bs"
    using c Cons.prems by (intro Cons.IH consistent_step)
  with core_confirmed_by [OF c] show ?case by simp
qed

lemma confirmations_append:
  "confirmations m s (xs @ ys) = confirmations m s xs @ confirmations m (run m s xs) ys"
  by (induction xs arbitrary: s) simp_all

lemma confirmations_skip_invalid:
  fixes s :: "('i::linorder) engine"
  assumes nv: "\<not> valid_bar (bar_high b) (bar_low b)" and c: "consistent s"
  shows "confirmations m s (xs @ b # ys) = confirmations m s (xs @ ys)"
proof -
  let ?r = "run m s xs"
  have cr: "consistent ?r" using c by (rule consistent_run)
  have "core (step m ?r b) = core ?r" using nv by (simp add: step_def update_invalid)
  then have "confirmations m (step m ?r b) ys = confirmations m ?r ys"
    using cr by (intro core_confirmations consistent_step)
  moreover have "confirmed_by m ?r b = None" using nv by (rule step_invalid)
  ultimately show ?thesis by (simp add: confirmations_append)
qed


lemma undecided_debug_state [simp]: "undecided (debug_state hi lo i s) = undecided s"
  by (simp add: undecided_def debug_state_def)

lemma undecided_update_df [simp]: "undecided (update_df hi lo i s) = undecided s"
  by (simp add: undecided_def update_df_def Let_def)



lemma branch_debug_state [simp]: "branch m (debug_state hi lo i s) = branch m s"
  by (simp add: branch_def debug_state_def
        cong: option.case_cong extreme.case_cong sum.case_cong bool.case_cong)










section \<open>Swings and their sentinels on positive prices\<close>

lemma tracked_swings:
  "pct (tracked hi lo i s) = pct s"
  "swing_high (tracked hi lo i s) =
     (case last_confirmed_type s of
        None \<Rightarrow> if fl_gt hi (swing_high s) then hi else swing_high s
      | Some High \<Rightarrow> if fl_lt lo (swing_low s) then NInf
                     else if fl_gt hi (swing_high s) then hi else swing_high s
      | Some Low \<Rightarrow> if fl_lt (swing_high s) hi then hi else swing_high s)"
  "swing_low (tracked hi lo i s) =
     (case last_confirmed_type s of
        None \<Rightarrow> if fl_lt lo (swing_low s) then lo else swing_low s
      | Some High \<Rightarrow> if fl_lt lo (swing_low s) then lo else swing_low s
      | Some Low \<Rightarrow> if fl_lt (swing_high s) hi then PInf
                    else if fl_lt lo (swing_low s) then lo else swing_low s)"
  by (simp_all add: tracked_def update_swings_def reset_swings_def update_df_def Let_def
        split: option.splits extreme.splits)

lemma settled_tracked:
  assumes s: "fresh s \<or> settled s" and v: "valid_bar hi lo"
    and ph: "pos_fin hi" and pl: "pos_fin lo"
  shows "settled (tracked hi lo i s)"
proof -
  obtain a b where hl: "hi = Fin a" "lo = Fin b" "0 < a" "0 < b" "b \<le> a"
    using v ph pl
    by (cases hi; cases lo) (auto simp: pos_fin_def valid_bar_def isna_def)
  from s show ?thesis
  proof
    assume "fresh s"
    then show ?thesis
      using hl by (simp add: fresh_def settled_def tracked_swings pos_fin_def fl_gt_def)
  next
    assume st: "settled s"
    show ?thesis
    proof (cases "last_confirmed_type s")
      case None
      with st show ?thesis
        using hl
        by (cases "swing_high s"; cases "swing_low s")
           (auto simp: settled_def tracked_swings pos_fin_def fl_gt_def)
    next
      case (Some u)
      with st show ?thesis
        using hl
        by (cases u; cases "swing_high s"; cases "swing_low s")
           (auto simp: settled_def tracked_swings pos_fin_def fl_gt_def)
    qed
  qed
qed

lemma settled_view: "view s' = view s \<Longrightarrow> settled s' = settled s"
  by (simp add: settled_def view_def cong: option.case_cong extreme.case_cong)

lemma trigger_other_side:
  assumes st: "settled s" and e: "examined m s t c" and g: "fl_ge c (pct s)"
  shows "pos_fin (side_price (other t) s)"
proof -
  have p: "\<not> fl_le (pct s) (Fin 0)" using st by (simp add: settled_def)
  have neg: "\<And>x. x \<le> 0 \<Longrightarrow> \<not> fl_ge (Fin x) (pct s)"
    using p by (cases "pct s") (auto simp: fl_ge_def)
  have ninf: "\<not> fl_ge NInf (pct s)" "\<not> fl_ge NaN (pct s)"
    using p by (cases "pct s"; simp add: fl_ge_def)+
  show ?thesis
  proof (cases "last_confirmed_type s")
    case None
    with st obtain a b where sw: "swing_high s = Fin a" "swing_low s = Fin b" "0 < b" "b \<le> a"
      by (cases "swing_high s"; cases "swing_low s") (auto simp: settled_def pos_fin_def)
    show ?thesis
    proof (cases t)
      case Low
      with sw show ?thesis by (simp add: side_price_def pos_fin_def)
    next
      case High
      with None e sw have "c = Fin ((b - a) / a)"
        by (auto simp: examined_def pct_change_def split: if_splits)
      moreover have "(b - a) / a \<le> 0" using sw by (simp add: divide_nonpos_pos)
      ultimately show ?thesis using g neg by blast
    qed
  next
    case (Some u)
    show ?thesis
    proof (cases u)
      case High
      with Some e have t: "t = Low"
        and c: "c = fl_div (fl_sub (swing_high s) (swing_low s)) (swing_low s)"
        by (auto simp: examined_def pct_change_def split: if_splits)
      from st Some High obtain b where b: "swing_low s = Fin b" "0 < b"
        and h: "swing_high s = NInf \<or> pos_fin (swing_high s)"
        by (cases "swing_low s") (auto simp: settled_def pos_fin_def)
      from h show ?thesis
      proof
        assume "swing_high s = NInf"
        with c b have "c = NInf" by simp
        with g ninf show ?thesis by simp
      next
        assume "pos_fin (swing_high s)"
        with t show ?thesis by (simp add: side_price_def)
      qed
    next
      case Low
      with Some e have t: "t = High"
        and c: "c = fl_neg (fl_div (fl_sub (swing_low s) (swing_high s)) (swing_high s))"
        by (auto simp: examined_def pct_change_def split: if_splits sum.splits)
      from st Some Low obtain a where a: "swing_high s = Fin a" "0 < a"
        and l: "swing_low s = PInf \<or> pos_fin (swing_low s)"
        by (cases "swing_high s") (auto simp: settled_def pos_fin_def)
      from l show ?thesis
      proof
        assume "swing_low s = PInf"
        with c a have "c = NInf" by simp
        with g ninf show ?thesis by simp
      next
        assume "pos_fin (swing_low s)"
        with t show ?thesis by (simp add: side_price_def)
      qed
    qed
  qed
qed

lemma fresh_view: "view s' = view s \<Longrightarrow> fresh s' = fresh s"
  by (simp add: fresh_def view_def)

lemma settled_step:
  fixes s :: "('i::linorder) engine"
  assumes s: "fresh s \<or> settled s" and v: "valid_bar (bar_high b) (bar_low b)"
    and p: "positive_bar b"
  shows "settled (step m s b)"
proof -
  let ?s3 = "tracked (bar_high b) (bar_low b) (bar_idx b) s"
  have s3: "settled ?s3"
    using s v p by (intro settled_tracked) (simp_all add: positive_bar_def)
  from step_valid [OF v, of m s]
  have "view (step m s b) = view ?s3
      \<or> (\<exists>t c. examined m ?s3 t c \<and> fl_ge c (pct ?s3)
           \<and> pct (step m s b) = pct ?s3
           \<and> last_confirmed_type (step m s b) = Some t
           \<and> side_price t (step m s b) = sentinel t
           \<and> side_price (other t) (step m s b) = side_price (other t) ?s3)"
    by auto
  then show ?thesis
  proof
    assume "view (step m s b) = view ?s3"
    then have "settled (step m s b) = settled ?s3" by (rule settled_view)
    with s3 show ?thesis by simp
  next
    assume "\<exists>t c. examined m ?s3 t c \<and> fl_ge c (pct ?s3)
           \<and> pct (step m s b) = pct ?s3
           \<and> last_confirmed_type (step m s b) = Some t
           \<and> side_price t (step m s b) = sentinel t
           \<and> side_price (other t) (step m s b) = side_price (other t) ?s3"
    then obtain t c where e: "examined m ?s3 t c" and g: "fl_ge c (pct ?s3)"
      and pc: "pct (step m s b) = pct ?s3"
      and ty: "last_confirmed_type (step m s b) = Some t"
      and sn: "side_price t (step m s b) = sentinel t"
      and ot: "side_price (other t) (step m s b) = side_price (other t) ?s3"
      by auto
    have o: "pos_fin (side_price (other t) ?s3)" using s3 e g by (rule trigger_other_side)
    have "\<not> fl_le (pct ?s3) (Fin 0)" using s3 by (simp add: settled_def)
    with pc ty sn ot o show ?thesis
      by (cases t) (simp_all add: settled_def side_price_def sentinel_def)
  qed
qed

lemma step_invalid_settled:
  assumes "\<not> valid_bar (bar_high b) (bar_low b)"
  shows "settled (step m s b) = settled s" and "fresh (step m s b) = fresh s"
  using settled_view [OF step_invalid(1) [OF assms, of m s]]
        fresh_view [OF step_invalid(1) [OF assms, of m s]] by simp_all

lemma settled_run:
  fixes s :: "('i::linorder) engine"
  assumes "settled s" and "\<forall>b\<in>set bs. valid_bar (bar_high b) (bar_low b) \<longrightarrow> positive_bar b"
  shows "settled (run m s bs)"
  using assms
proof (induction bs arbitrary: s)
  case Nil
  then show ?case by simp
next
  case (Cons b bs)
  have "settled (step m s b)"
  proof (cases "valid_bar (bar_high b) (bar_low b)")
    case True
    with Cons.prems show ?thesis by (intro settled_step) simp_all
  next
    case False
    with Cons.prems show ?thesis by (simp add: step_invalid_settled)
  qed
  with Cons show ?case by simp
qed

lemma fresh_run:
  fixes s :: "('i::linorder) engine"
  assumes "fresh s" and "\<forall>b\<in>set bs. valid_bar (bar_high b) (bar_low b) \<longrightarrow> positive_bar b"
  shows "if \<exists>b\<in>set bs. valid_bar (bar_high b) (bar_low b)
         then settled (run m s bs) else fresh (run m s bs)"
  using assms
proof (induction bs arbitrary: s)
  case Nil
  then show ?case by simp
next
  case (Cons b bs)
  show ?case
  proof (cases "valid_bar (bar_high b) (bar_low b)")
    case True
    with Cons.prems have "settled (step m s b)" by (intro settled_step) simp_all
    with Cons.prems have "settled (run m (step m s b) bs)" by (intro settled_run) simp_all
    with True show ?thesis by simp
  next
    case False
    with Cons.prems have "fresh (step m s b)" by (simp add: step_invalid_settled)
    with Cons.prems Cons.IH [of "step m s b"] False show ?thesis by simp
  qed
qed

lemma fresh_init: "init p d = Inr s \<Longrightarrow> fresh s"
  by (auto simp: init_def fresh_def split: if_splits)

lemma settled_sentinels:
  assumes "settled s"
  shows "\<not> (swing_high s = NInf \<and> swing_low s = PInf)"
    and "swing_high s = NInf \<Longrightarrow> last_confirmed_type s = Some High"
    and "swing_low s = PInf \<Longrightarrow> last_confirmed_type s = Some Low"
proof -
  show "\<not> (swing_high s = NInf \<and> swing_low s = PInf)"
    using assms
    by (cases "last_confirmed_type s")
       (auto simp: settled_def pos_fin_def split: extreme.splits)
  show "last_confirmed_type s = Some High" if "swing_high s = NInf"
    using assms that
    by (cases "last_confirmed_type s")
       (auto simp: settled_def pos_fin_def split: extreme.splits)
  show "last_confirmed_type s = Some Low" if "swing_low s = PInf"
    using assms that
    by (cases "last_confirmed_type s")
       (auto simp: settled_def pos_fin_def split: extreme.splits)
qed

section \<open>The distance between the last pivot and the opposite swing\<close>

lemma far_view: "view s' = view s \<Longrightarrow> far s' = far s"
  by (simp add: far_def view_def cong: option.case_cong extreme.case_cong)

lemma tracked_last:
  "last_confirmed_type (tracked hi lo i s) = last_confirmed_type s"
  "last_confirmed_price (tracked hi lo i s) = last_confirmed_price s"
  by (simp_all add: tracked_def update_swings_def reset_swings_def update_df_def Let_def
        split: option.splits extreme.splits)

lemma gap_low_mono:
  assumes "pos_fin h" and "fl_ge (fl_div (fl_sub h sl) h) p" and "fl_lt lo sl"
    and "\<not> fl_le p (Fin 0)"
  shows "fl_ge (fl_div (fl_sub h lo) h) p"
proof -
  from assms(1) obtain a where a: "h = Fin a" "0 < a"
    by (cases h) (auto simp: pos_fin_def)
  show ?thesis
  proof (cases lo)
    case (Fin y)
    show ?thesis
    proof (cases sl)
      case (Fin x)
      with assms \<open>lo = Fin y\<close> a have "y < x" by simp
      then have "(a - x) / a \<le> (a - y) / a" using a by (simp add: divide_right_mono)
      with assms Fin \<open>lo = Fin y\<close> a show ?thesis
        by (cases p) (auto simp: fl_ge_def)
    next
      case PInf
      with assms a show ?thesis by (cases p) (auto simp: fl_ge_def)
    qed (use assms \<open>lo = Fin y\<close> in auto)
  next
    case NInf
    with assms a show ?thesis by (cases p) (auto simp: fl_ge_def)
  qed (use assms in \<open>cases sl; auto\<close>)+
qed

lemma gap_high_mono:
  assumes "pos_fin l" and "fl_ge (fl_div (fl_sub sh l) l) p" and "fl_lt sh hi"
    and "\<not> fl_le p (Fin 0)"
  shows "fl_ge (fl_div (fl_sub hi l) l) p"
proof -
  from assms(1) obtain a where a: "l = Fin a" "0 < a"
    by (cases l) (auto simp: pos_fin_def)
  show ?thesis
  proof (cases hi)
    case (Fin y)
    show ?thesis
    proof (cases sh)
      case (Fin x)
      with assms \<open>hi = Fin y\<close> a have "x < y" by simp
      then have "(x - a) / a \<le> (y - a) / a" using a by (simp add: divide_right_mono)
      with assms Fin \<open>hi = Fin y\<close> a show ?thesis
        by (cases p) (auto simp: fl_ge_def)
    next
      case NInf
      with assms a show ?thesis by (cases p) (auto simp: fl_ge_def)
    qed (use assms \<open>hi = Fin y\<close> in auto)
  next
    case PInf
    with assms a show ?thesis by (cases p) (auto simp: fl_ge_def)
  qed (use assms in \<open>cases sh; auto\<close>)+
qed


lemma far_tracked:
  assumes f: "far s" and v: "valid_bar hi lo"
  shows "far (tracked hi lo i s)"
proof -
  have p: "\<not> fl_le (pct s) (Fin 0)" using f by (simp add: far_def)
  have hl: "hi \<noteq> NaN" "lo \<noteq> NaN" "\<not> fl_lt hi lo"
    using v by (auto simp: valid_bar_def isna_def)
  show ?thesis
  proof (cases "last_confirmed_type s")
    case None
    with f have "last_confirmed_price s = None"
      and "(swing_high s = NInf \<and> swing_low s = PInf) \<or> fl_le (swing_low s) (swing_high s)"
      by (simp_all add: far_def)
    with None p hl show ?thesis
      by (cases hi; cases lo; cases "swing_high s"; cases "swing_low s")
         (auto simp: far_def tracked_swings tracked_last fl_gt_def)
  next
    case (Some u)
    show ?thesis
    proof (cases "last_confirmed_price s")
      case None
      with Some p show ?thesis
        by (cases u) (simp_all add: far_def tracked_swings(1) tracked_last)
    next
      case (Some q)
      show ?thesis
      proof (cases u)
        case High
        have "fl_ge (fl_div (fl_sub q (swing_low (tracked hi lo i s))) q) (pct s)" if pq: "pos_fin q"
        proof -
          from f \<open>last_confirmed_type s = Some u\<close> High Some pq
          have g: "fl_ge (fl_div (fl_sub q (swing_low s)) q) (pct s)" by (simp add: far_def)
          show ?thesis
          proof (cases "fl_lt lo (swing_low s)")
            case True
            from gap_low_mono [OF pq g True p] True \<open>last_confirmed_type s = Some u\<close> High
            show ?thesis by (simp add: tracked_swings)
          next
            case False
            with g \<open>last_confirmed_type s = Some u\<close> High show ?thesis
              by (simp add: tracked_swings)
          qed
        qed
        with p \<open>last_confirmed_type s = Some u\<close> High Some show ?thesis
          by (simp add: far_def tracked_swings(1) tracked_last)
      next
        case Low
        have "fl_ge (fl_div (fl_sub (swing_high (tracked hi lo i s)) q) q) (pct s)" if pq: "pos_fin q"
        proof -
          from f \<open>last_confirmed_type s = Some u\<close> Low Some pq
          have g: "fl_ge (fl_div (fl_sub (swing_high s) q) q) (pct s)" by (simp add: far_def)
          show ?thesis
          proof (cases "fl_lt (swing_high s) hi")
            case True
            from gap_high_mono [OF pq g True p] True \<open>last_confirmed_type s = Some u\<close> Low
            show ?thesis by (simp add: tracked_swings)
          next
            case False
            with g \<open>last_confirmed_type s = Some u\<close> Low show ?thesis
              by (simp add: tracked_swings)
          qed
        qed
        with p \<open>last_confirmed_type s = Some u\<close> Low Some show ?thesis
          by (simp add: far_def tracked_swings(1) tracked_last)
      qed
    qed
  qed
qed


lemma moved_after_high:
  assumes "pos_fin h" and "fl_ge (fl_div (fl_sub h x) h) p" and "\<not> fl_le p (Fin 0)"
  shows "moved h x p"
proof -
  from assms(1) obtain a where a: "h = Fin a" "0 < a"
    by (cases h) (auto simp: pos_fin_def)
  show ?thesis
  proof (cases x)
    case (Fin b)
    have "\<bar>b - a\<bar> = a - b" if "0 < (a - b) / a"
      using that a by (simp add: zero_less_divide_iff)
    with assms a Fin show ?thesis
      by (cases p) (auto simp: moved_def fl_ge_def)
  qed (use assms a in \<open>cases p; auto simp: moved_def fl_ge_def\<close>)+
qed

lemma moved_after_low:
  assumes "pos_fin l" and "fl_ge (fl_div (fl_sub x l) l) p" and "\<not> fl_le p (Fin 0)"
  shows "moved l x p"
proof -
  from assms(1) obtain a where a: "l = Fin a" "0 < a"
    by (cases l) (auto simp: pos_fin_def)
  show ?thesis
  proof (cases x)
    case (Fin b)
    have "\<bar>b - a\<bar> = b - a" if "0 < (b - a) / a"
      using that a by (simp add: zero_less_divide_iff)
    with assms a Fin show ?thesis
      by (cases p) (auto simp: moved_def fl_ge_def)
  qed (use assms a in \<open>cases p; auto simp: moved_def fl_ge_def\<close>)+
qed

lemma neg_change:
  assumes "pos_fin h" and "fl_ge (fl_neg (fl_div (fl_sub x h) h)) p"
  shows "fl_ge (fl_div (fl_sub h x) h) p"
proof -
  from assms(1) obtain a where a: "h = Fin a" "0 < a"
    by (cases h) (auto simp: pos_fin_def)
  show ?thesis
  proof (cases x)
    case (Fin b)
    have "- ((b - a) / a) = (a - b) / a" by (simp add: minus_divide_left)
    with assms a Fin show ?thesis by simp
  qed (use assms a in \<open>cases p; auto simp: fl_ge_def\<close>)+
qed

lemma no_fall_below:
  assumes "pos_fin h" and "fl_le x h" and "\<not> fl_le p (Fin 0)"
  shows "\<not> fl_ge (fl_div (fl_sub x h) h) p"
proof -
  from assms(1) obtain a where a: "h = Fin a" "0 < a"
    by (cases h) (auto simp: pos_fin_def)
  show ?thesis
  proof (cases x)
    case (Fin b)
    with assms a have "(b - a) / a \<le> 0" by (simp add: divide_nonpos_pos)
    with assms a Fin show ?thesis
      by (cases p) (auto simp: fl_ge_def)
  qed (use assms a in \<open>cases p; auto simp: fl_ge_def\<close>)+
qed


lemma far_link:
  assumes f: "far s" and e: "examined m s t c" and g: "fl_ge c (pct s)"
  shows "case last_confirmed_price s of
           None \<Rightarrow> True
         | Some q \<Rightarrow> pos_fin q \<longrightarrow> moved q (side_price t s) (pct s)"
proof (cases "last_confirmed_price s")
  case None
  then show ?thesis by simp
next
  case (Some q)
  have p: "\<not> fl_le (pct s) (Fin 0)" using f by (simp add: far_def)
  have "moved q (side_price t s) (pct s)" if pq: "pos_fin q"
  proof (cases "last_confirmed_type s")
    case None
    with f Some show ?thesis by (simp add: far_def)
  next
    case (Some u)
    show ?thesis
    proof (cases u)
      case High
      with \<open>last_confirmed_type s = Some u\<close> e have t: "t = Low"
        by (simp add: examined_def)
      from f \<open>last_confirmed_type s = Some u\<close> High \<open>last_confirmed_price s = Some q\<close> pq
      have "fl_ge (fl_div (fl_sub q (swing_low s)) q) (pct s)" by (simp add: far_def)
      from moved_after_high [OF pq this p] t show ?thesis by (simp add: side_price_def)
    next
      case Low
      with \<open>last_confirmed_type s = Some u\<close> e have t: "t = High"
        by (simp add: examined_def)
      from f \<open>last_confirmed_type s = Some u\<close> Low \<open>last_confirmed_price s = Some q\<close> pq
      have "fl_ge (fl_div (fl_sub (swing_high s) q) q) (pct s)" by (simp add: far_def)
      from moved_after_low [OF pq this p] t show ?thesis by (simp add: side_price_def)
    qed
  qed
  with Some show ?thesis by simp
qed

lemma far_gap:
  assumes f: "far s" and e: "examined m s t c" and g: "fl_ge c (pct s)"
    and pp: "pos_fin (side_price t s)"
  shows "case t of
           Low \<Rightarrow> fl_ge (fl_div (fl_sub (swing_high s) (swing_low s)) (swing_low s)) (pct s)
         | High \<Rightarrow> fl_ge (fl_div (fl_sub (swing_high s) (swing_low s)) (swing_high s)) (pct s)"
proof -
  have p: "\<not> fl_le (pct s) (Fin 0)" using f by (simp add: far_def)
  have low: "fl_ge (fl_div (fl_sub (swing_high s) (swing_low s)) (swing_low s)) (pct s)"
    if "pct_change m (swing_low s) (swing_high s) = Inr c"
    using that g by (auto simp: pct_change_def split: if_splits)
  show ?thesis
  proof (cases "last_confirmed_type s")
    case None
    show ?thesis
    proof (cases t)
      case Low
      with None e low show ?thesis by (simp add: examined_def)
    next
      case High
      with None e have c: "c = fl_div (fl_sub (swing_low s) (swing_high s)) (swing_high s)"
        by (auto simp: examined_def pct_change_def split: if_splits)
      from pp High have ph: "pos_fin (swing_high s)" by (simp add: side_price_def)
      then have "swing_high s \<noteq> NInf" by (auto simp: pos_fin_def)
      with f None have "fl_le (swing_low s) (swing_high s)" by (simp add: far_def)
      from no_fall_below [OF ph this p] g c show ?thesis by simp
    qed
  next
    case (Some u)
    show ?thesis
    proof (cases u)
      case High
      with Some e have "t = Low" "pct_change m (swing_low s) (swing_high s) = Inr c"
        by (simp_all add: examined_def)
      with low show ?thesis by simp
    next
      case Low
      with Some e have t: "t = High"
        and c: "c = fl_neg (fl_div (fl_sub (swing_low s) (swing_high s)) (swing_high s))"
        by (auto simp: examined_def pct_change_def split: if_splits sum.splits)
      from pp t have ph: "pos_fin (swing_high s)" by (simp add: side_price_def)
      from g c have "fl_ge (fl_neg (fl_div (fl_sub (swing_low s) (swing_high s)) (swing_high s))) (pct s)"
        by simp
      from neg_change [OF ph this] t show ?thesis by simp
    qed
  qed
qed


lemma far_step_valid:
  fixes s :: "('i::linorder) engine"
  assumes f: "far s" and v: "valid_bar (bar_high b) (bar_low b)"
  shows "far (step m s b)"
    and "pct (step m s b) = pct s"
    and "case confirmed_by m s b of
           None \<Rightarrow> last_confirmed_price (step m s b) = last_confirmed_price s
         | Some x \<Rightarrow> last_confirmed_price (step m s b) = Some (p_price x)
             \<and> (case last_confirmed_price s of
                  None \<Rightarrow> True
                | Some q \<Rightarrow> pos_fin q \<longrightarrow> moved q (p_price x) (pct s))"
proof -
  let ?s3 = "tracked (bar_high b) (bar_low b) (bar_idx b) s"
  let ?s' = "step m s b"
  have f3: "far ?s3" using f v by (rule far_tracked)
  have p3: "pct ?s3 = pct s" by (rule tracked_swings(1))
  have l3: "last_confirmed_price ?s3 = last_confirmed_price s" by (rule tracked_last(2))
  from step_valid [OF v, of m s]
  have "(confirmed_by m s b = None \<and> view ?s' = view ?s3)
      \<or> (\<exists>t c k. examined m ?s3 t c \<and> fl_ge c (pct ?s3)
           \<and> confirmed_by m s b = Some \<lparr> p_price = side_price t ?s3, p_index = k, p_type = t \<rparr>
           \<and> pct ?s' = pct ?s3
           \<and> last_confirmed_type ?s' = Some t
           \<and> last_confirmed_price ?s' = Some (side_price t ?s3)
           \<and> side_price (other t) ?s' = side_price (other t) ?s3)"
    by auto
  then have "far ?s' \<and> pct ?s' = pct s
      \<and> (case confirmed_by m s b of
           None \<Rightarrow> last_confirmed_price ?s' = last_confirmed_price s
         | Some x \<Rightarrow> last_confirmed_price ?s' = Some (p_price x)
             \<and> (case last_confirmed_price s of
                  None \<Rightarrow> True
                | Some q \<Rightarrow> pos_fin q \<longrightarrow> moved q (p_price x) (pct s)))"
  proof
    assume a: "confirmed_by m s b = None \<and> view ?s' = view ?s3"
    then have vw: "view ?s' = view ?s3" by simp
    then have "far ?s' = far ?s3" by (rule far_view)
    moreover from vw have "pct ?s' = pct ?s3"
      and "last_confirmed_price ?s' = last_confirmed_price ?s3"
      by (simp_all add: view_def)
    ultimately show ?thesis using a f3 p3 l3 by simp
  next
    assume "\<exists>t c k. examined m ?s3 t c \<and> fl_ge c (pct ?s3)
           \<and> confirmed_by m s b = Some \<lparr> p_price = side_price t ?s3, p_index = k, p_type = t \<rparr>
           \<and> pct ?s' = pct ?s3
           \<and> last_confirmed_type ?s' = Some t
           \<and> last_confirmed_price ?s' = Some (side_price t ?s3)
           \<and> side_price (other t) ?s' = side_price (other t) ?s3"
    then obtain t c k where e: "examined m ?s3 t c" and g: "fl_ge c (pct ?s3)"
      and cb: "confirmed_by m s b = Some \<lparr> p_price = side_price t ?s3, p_index = k, p_type = t \<rparr>"
      and pc: "pct ?s' = pct ?s3"
      and ty: "last_confirmed_type ?s' = Some t"
      and pr: "last_confirmed_price ?s' = Some (side_price t ?s3)"
      and ot: "side_price (other t) ?s' = side_price (other t) ?s3"
      by auto
    have np: "\<not> fl_le (pct ?s3) (Fin 0)" using f3 by (simp add: far_def)
    have link: "case last_confirmed_price ?s3 of
           None \<Rightarrow> True
         | Some q \<Rightarrow> pos_fin q \<longrightarrow> moved q (side_price t ?s3) (pct ?s3)"
      using f3 e g by (rule far_link)
    have gap: "pos_fin (side_price t ?s3) \<Longrightarrow> (case t of
           Low \<Rightarrow> fl_ge (fl_div (fl_sub (swing_high ?s3) (swing_low ?s3)) (swing_low ?s3)) (pct ?s3)
         | High \<Rightarrow> fl_ge (fl_div (fl_sub (swing_high ?s3) (swing_low ?s3)) (swing_high ?s3)) (pct ?s3))"
      using f3 e g by (rule far_gap)
    have "far ?s'"
    proof (cases t)
      case High
      with ot have "swing_low ?s' = swing_low ?s3" by (simp add: side_price_def)
      with High gap np pc ty pr show ?thesis
        by (simp add: far_def side_price_def)
    next
      case Low
      with ot have "swing_high ?s' = swing_high ?s3" by (simp add: side_price_def)
      with Low gap np pc ty pr show ?thesis
        by (simp add: far_def side_price_def)
    qed
    moreover from link have "case last_confirmed_price s of
           None \<Rightarrow> True
         | Some q \<Rightarrow> pos_fin q \<longrightarrow> moved q (side_price t ?s3) (pct s)"
      by (simp add: l3 p3 split: option.splits)
    ultimately show ?thesis using cb pc pr p3 by (simp split: option.splits)
  qed
  then show "far ?s'" and "pct ?s' = pct s"
    and "case confirmed_by m s b of
           None \<Rightarrow> last_confirmed_price ?s' = last_confirmed_price s
         | Some x \<Rightarrow> last_confirmed_price ?s' = Some (p_price x)
             \<and> (case last_confirmed_price s of
                  None \<Rightarrow> True
                | Some q \<Rightarrow> pos_fin q \<longrightarrow> moved q (p_price x) (pct s))"
    by simp_all
qed

lemma far_step_invalid:
  assumes "\<not> valid_bar (bar_high b) (bar_low b)"
  shows "far (step m s b) = far s" and "pct (step m s b) = pct s"
    and "last_confirmed_price (step m s b) = last_confirmed_price s"
proof -
  have vw: "view (step m s b) = view s" using assms by (rule step_invalid(1))
  then show "far (step m s b) = far s" by (rule far_view)
  from vw show "pct (step m s b) = pct s"
    and "last_confirmed_price (step m s b) = last_confirmed_price s"
    by (simp_all add: view_def)
qed

lemma threshold_from_confirmations:
  fixes s :: "('i::linorder) engine"
  assumes "far s"
  shows "threshold_from (last_confirmed_price s) (pct s) (confirmations m s bs)"
  using assms
proof (induction bs arbitrary: s)
  case Nil
  show ?case by simp
next
  case (Cons b bs)
  show ?case
  proof (cases "valid_bar (bar_high b) (bar_low b)")
    case False
    have "confirmed_by m s b = None" using False by (rule step_invalid(2))
    moreover have "far (step m s b)" using False Cons.prems by (simp add: far_step_invalid)
    note Cons.IH [OF this, of ]
    ultimately show ?thesis using False by (simp add: far_step_invalid)
  next
    case True
    note st = far_step_valid [OF Cons.prems True, of m]
    note ih = Cons.IH [OF st(1)]
    show ?thesis
    proof (cases "confirmed_by m s b")
      case None
      with st(2,3) ih show ?thesis by simp
    next
      case (Some x)
      with st(2,3) ih show ?thesis by simp
    qed
  qed
qed

lemma threshold_from_chain: "threshold_from prev c xs \<Longrightarrow> threshold_chain c xs"
proof (induction xs arbitrary: prev)
  case Nil
  show ?case by simp
next
  case (Cons x xs)
  then have t: "threshold_from (Some (p_price x)) c xs" by simp
  show ?case
  proof (cases xs)
    case Nil
    then show ?thesis by simp
  next
    case (Cons y zs)
    with t Cons.IH [OF t] show ?thesis by simp
  qed
qed

lemma far_init: "init p d = Inr s \<Longrightarrow> far s \<and> pct s = p"
  by (auto simp: init_def far_def split: if_splits)


lemma settled_pivot:
  assumes st: "settled s" and e: "examined m s t c"
  shows "pos_fin (side_price t s)"
proof (cases "last_confirmed_type s")
  case None
  with st show ?thesis by (cases t) (simp_all add: settled_def side_price_def)
next
  case (Some u)
  with st e show ?thesis
    by (cases u) (auto simp: settled_def side_price_def examined_def)
qed

lemma positive_confirmations:
  fixes s :: "('i::linorder) engine"
  assumes "fresh s \<or> settled s"
    and "\<forall>b\<in>set bs. valid_bar (bar_high b) (bar_low b) \<longrightarrow> positive_bar b"
  shows "\<forall>x\<in>set (confirmations m s bs). pos_fin (p_price x)"
  using assms
proof (induction bs arbitrary: s)
  case Nil
  show ?case by simp
next
  case (Cons b bs)
  show ?case
  proof (cases "valid_bar (bar_high b) (bar_low b)")
    case False
    have "confirmed_by m s b = None" using False by (rule step_invalid(2))
    moreover from Cons.prems(1) False have "fresh (step m s b) \<or> settled (step m s b)"
      by (simp add: step_invalid_settled)
    from Cons.IH [OF this] Cons.prems(2)
    have "\<forall>x\<in>set (confirmations m (step m s b) bs). pos_fin (p_price x)" by simp
    ultimately show ?thesis by simp
  next
    case True
    let ?s3 = "tracked (bar_high b) (bar_low b) (bar_idx b) s"
    from True Cons.prems(2) have pb: "positive_bar b" by simp
    have "settled (step m s b)" using Cons.prems(1) True pb by (rule settled_step)
    then have "fresh (step m s b) \<or> settled (step m s b)" by simp
    from Cons.IH [OF this] Cons.prems(2)
    have rest: "\<forall>x\<in>set (confirmations m (step m s b) bs). pos_fin (p_price x)" by simp
    have s3: "settled ?s3"
      using Cons.prems(1) True pb by (intro settled_tracked) (simp_all add: positive_bar_def)
    from step_valid [OF True, of m s]
    have "confirmed_by m s b = None
      \<or> (\<exists>t c k. examined m ?s3 t c
           \<and> confirmed_by m s b = Some \<lparr> p_price = side_price t ?s3, p_index = k, p_type = t \<rparr>)"
      by auto
    then have "case confirmed_by m s b of None \<Rightarrow> True | Some x \<Rightarrow> pos_fin (p_price x)"
    proof
      assume "confirmed_by m s b = None"
      then show ?thesis by simp
    next
      assume "\<exists>t c k. examined m ?s3 t c
           \<and> confirmed_by m s b = Some \<lparr> p_price = side_price t ?s3, p_index = k, p_type = t \<rparr>"
      then obtain t c k where e: "examined m ?s3 t c"
        and cb: "confirmed_by m s b = Some \<lparr> p_price = side_price t ?s3, p_index = k, p_type = t \<rparr>"
        by auto
      from settled_pivot [OF s3 e] cb show ?thesis by simp
    qed
    with rest show ?thesis by (simp split: option.splits)
  qed
qed


section \<open>Alternation of the confirmed pivots\<close>

lemma alt_from_confirmations:
  "alt_from (last_confirmed_type s) (map p_type (confirmations m s bs))"
proof (induction bs arbitrary: s)
  case Nil
  show ?case by simp
next
  case (Cons b bs)
  show ?case
  proof (cases "confirmed_by m s b")
    case None
    with Cons [of "step m s b"] show ?thesis
      by (simp add: confirmed_by_None)
  next
    case (Some p)
    with Cons [of "step m s b"] confirmed_by_Some [OF Some] show ?thesis
      by auto
  qed
qed

lemma alt_from_alternates: "alt_from prev ts \<Longrightarrow> alternates ts"
  by (induction ts arbitrary: prev rule: alternates.induct) auto

text \<open>
  Claim C1. Whatever the object and whatever the stream of bars fed through
  \<^verbatim>\<open>update\<close>, the types of the pivots confirmed along the stream alternate: no two
  pivots confirmed one after the other have the same type. This holds from any
  object, so in particular from a freshly constructed one, in both numeric modes and
  also when some calls raise.
\<close>

theorem confirmed_types_alternate:
  "alternates (map p_type (confirmations m s bs))"
  using alt_from_confirmations alt_from_alternates by blast

section \<open>Construction\<close>

text \<open>
  Claim C9. Construction fails exactly when \<^verbatim>\<open>pct <= 0\<close> holds, and then with
  \<^verbatim>\<open>ValueError\<close> (the invalid-threshold error); otherwise the new object has
  \<open>swing_high\<close> at minus infinity, \<open>swing_low\<close> at plus infinity, no swing index, no
  last confirmed pivot, no candidate, and an empty history, position table and debug
  trace. A NaN threshold does not satisfy \<^verbatim>\<open>pct <= 0\<close> and is accepted.
\<close>

theorem init_threshold:
  "(isl (init p d :: error + 'i engine) \<longleftrightarrow> fl_le p (Fin 0)) \<and>
   (case (init p d :: error + 'i engine) of
      Inl e \<Rightarrow> e = ValueError
    | Inr s \<Rightarrow> pct s = p \<and> swing_high s = NInf \<and> swing_low s = PInf
        \<and> swing_high_idx s = None \<and> swing_low_idx s = None
        \<and> last_confirmed_type s = None \<and> last_confirmed_price s = None
        \<and> last_confirmed_idx s = None
        \<and> candidate_price s = None \<and> candidate_idx s = None
        \<and> historic_dic s = \<lparr> col_index = [], col_High = [], col_Low = [],
                              col_ZigZag = [], col_type = [] \<rparr>
        \<and> index_to_pos s = Map.empty \<and> debug_dic s = [])"
  by (simp add: init_def)

section \<open>The scenario with threshold 0.05\<close>

text \<open>
  Claim C3 as stated: in the scenario the third call confirms the Low pivot 99 at
  index 0 and leaves the candidate at 110, index 1. This is not what the code does.
\<close>

theorem scenario_third_update_counterexample:
  "\<not> (confirmed_by PyFloat (run PyFloat scenario_engine (take 2 scenario_bars))
          (scenario_bars ! 2) = Some \<lparr> p_price = Fin 99, p_index = 0, p_type = Low \<rparr>
      \<and> candidate_price (run PyFloat scenario_engine scenario_bars) = Some (Fin 110)
      \<and> candidate_idx (run PyFloat scenario_engine scenario_bars) = Some 1)"
  by (simp add: scenario_engine_def scenario_bars_def eval_defs)

text \<open>
  Claim C3, amended. In the scenario (the object constructed with threshold 0.05, fed
  the three bars) the first call confirms nothing; the second call already confirms the
  Low pivot 99 at index 0, because the high 110 of the second bar is more than 5 percent
  above 99, and the running high is then 110 at index 1; the third call confirms the
  High pivot 110 at index 1. These two are all the pivots confirmed along the three bars.
\<close>

theorem scenario_confirmations:
  "init (Fin (5 / 100)) False = Inr scenario_engine
   \<and> confirmed_by m scenario_engine (scenario_bars ! 0) = None
   \<and> confirmed_by m (run m scenario_engine (take 1 scenario_bars)) (scenario_bars ! 1)
       = Some \<lparr> p_price = Fin 99, p_index = 0, p_type = Low \<rparr>
   \<and> swing_high (run m scenario_engine (take 2 scenario_bars)) = Fin 110
   \<and> swing_high_idx (run m scenario_engine (take 2 scenario_bars)) = Some 1
   \<and> confirmed_by m (run m scenario_engine (take 2 scenario_bars)) (scenario_bars ! 2)
       = Some \<lparr> p_price = Fin 110, p_index = 1, p_type = High \<rparr>
   \<and> confirmations m scenario_engine scenario_bars =
       [\<lparr> p_price = Fin 99, p_index = 0, p_type = Low \<rparr>,
        \<lparr> p_price = Fin 110, p_index = 1, p_type = High \<rparr>]"
  by (simp add: scenario_engine_def scenario_bars_def eval_defs)

section \<open>The return value of \<^verbatim>\<open>update\<close>\<close>

text \<open>
  Claim C4 as stated: a call that confirms a pivot returns the pivot. In the scenario the
  second call confirms the Low pivot 99 at index 0 and returns \<^verbatim>\<open>None\<close>.
\<close>

theorem update_return_counterexample:
  "confirmed_by PyFloat (run PyFloat scenario_engine (take 1 scenario_bars)) (scenario_bars ! 1)
     = Some \<lparr> p_price = Fin 99, p_index = 0, p_type = Low \<rparr>
   \<and> snd (update PyFloat (Fin 110) (Fin 109) 1 (run PyFloat scenario_engine (take 1 scenario_bars)))
     \<noteq> Returned (Some \<lparr> p_price = Fin 99, p_index = 0, p_type = Low \<rparr>)
   \<and> snd (update PyFloat (Fin 110) (Fin 109) 1 (run PyFloat scenario_engine (take 1 scenario_bars)))
     = Returned None"
  by (simp add: scenario_engine_def scenario_bars_def eval_defs)

text \<open>
  Claim C4, amended. Every call of \<^verbatim>\<open>update\<close> either raises or returns \<^verbatim>\<open>None\<close>,
  whether or not it confirmed a pivot. A call that confirms a pivot does not raise; it
  returns \<^verbatim>\<open>None\<close> and leaves the pivot in the attributes \<^verbatim>\<open>last_confirmed_price\<close>,
  \<^verbatim>\<open>last_confirmed_idx\<close> and \<^verbatim>\<open>last_confirmed_type\<close>, with \<^verbatim>\<open>confirmed\<close> set.
\<close>

theorem update_returns_None:
  "(snd (update m hi lo i s) = Returned None \<or> (\<exists>e. snd (update m hi lo i s) = Raised e))
   \<and> (confirmed_by m s b = Some p \<longrightarrow>
        snd (update m (bar_high b) (bar_low b) (bar_idx b) s) = Returned None
        \<and> confirmed (step m s b)
        \<and> last_confirmed_price (step m s b) = Some (p_price p)
        \<and> last_confirmed_idx (step m s b) = Some (p_index p)
        \<and> last_confirmed_type (step m s b) = Some (p_type p))"
proof (rule conjI)
  show "snd (update m hi lo i s) = Returned None \<or> (\<exists>e. snd (update m hi lo i s) = Raised e)"
    by (rule update_outcome)
next
  show "confirmed_by m s b = Some p \<longrightarrow>
        snd (update m (bar_high b) (bar_low b) (bar_idx b) s) = Returned None
        \<and> confirmed (step m s b)
        \<and> last_confirmed_price (step m s b) = Some (p_price p)
        \<and> last_confirmed_idx (step m s b) = Some (p_index p)
        \<and> last_confirmed_type (step m s b) = Some (p_type p)"
    by (rule impI) (rule confirmed_by_returns)
qed

theorem update_returns_None_witness:
  "confirmed_by PyFloat (run PyFloat scenario_engine (take 1 scenario_bars)) (scenario_bars ! 1)
     = Some \<lparr> p_price = Fin 99, p_index = 0, p_type = Low \<rparr>
   \<and> snd (update PyFloat (bar_high (scenario_bars ! 1)) (bar_low (scenario_bars ! 1))
          (bar_idx (scenario_bars ! 1)) (run PyFloat scenario_engine (take 1 scenario_bars)))
     = Returned None
   \<and> last_confirmed_price (step PyFloat (run PyFloat scenario_engine (take 1 scenario_bars))
        (scenario_bars ! 1)) = Some (Fin 99)"
proof -
  have c: "confirmed_by PyFloat (run PyFloat scenario_engine (take 1 scenario_bars))
             (scenario_bars ! 1) = Some \<lparr> p_price = Fin 99, p_index = 0, p_type = Low \<rparr>"
    by (simp add: scenario_engine_def scenario_bars_def eval_defs)
  from update_returns_None [THEN conjunct2, THEN mp, OF c] c show ?thesis
    by simp
qed

section \<open>One bar never registers both extremes after a pivot\<close>

text \<open>
  Claim C8. When the last confirmed pivot is a High and a valid bar makes a new swing low
  (\<open>low < swing_low\<close>), a new high in the same bar (\<open>high > swing_high\<close>) is not
  taken over: after the call \<open>swing_high\<close> is the sentinel minus infinity, set at this
  bar's index by \<^verbatim>\<open>_reset_swings\<close>, and not the bar's high. Symmetrically, when the last
  confirmed pivot is a Low and the bar makes a new swing high, a new low in the same bar
  is not taken over: \<open>swing_low\<close> is plus infinity at this bar's index afterwards. This
  holds whether or not the call confirms a pivot, and also when it raises.
\<close>

theorem opposite_extreme_suppressed:
  fixes s :: "('i::linorder) engine"
  shows
  "(last_confirmed_type s = Some High \<and> valid_bar hi lo \<and> fl_lt lo (swing_low s)
      \<and> fl_gt hi (swing_high s) \<longrightarrow>
      swing_high (fst (update m hi lo i s)) = NInf
      \<and> swing_high_idx (fst (update m hi lo i s)) = Some i
      \<and> swing_high (fst (update m hi lo i s)) \<noteq> hi)
   \<and> (last_confirmed_type s = Some Low \<and> valid_bar hi lo \<and> fl_lt (swing_high s) hi
      \<and> fl_lt lo (swing_low s) \<longrightarrow>
      swing_low (fst (update m hi lo i s)) = PInf
      \<and> swing_low_idx (fst (update m hi lo i s)) = Some i
      \<and> swing_low (fst (update m hi lo i s)) \<noteq> lo)"
proof (intro conjI impI)
  assume a: "last_confirmed_type s = Some High \<and> valid_bar hi lo \<and> fl_lt lo (swing_low s)
      \<and> fl_gt hi (swing_high s)"
  then have k: "side_price High (fst (update m hi lo i s)) = side_price High (tracked hi lo i s)
       \<and> side_idx High (fst (update m hi lo i s)) = side_idx High (tracked hi lo i s)"
    by (intro other_side_kept) simp_all
  from a have t: "swing_high (tracked hi lo i s) = NInf
      \<and> swing_high_idx (tracked hi lo i s) = Some i"
    using tracked_new_low [of s lo hi i] by simp
  from a have n: "hi \<noteq> NInf" using fl_gt_not_NInf by blast
  from k t show "swing_high (fst (update m hi lo i s)) = NInf"
    by (simp add: side_price_def)
  from k t show "swing_high_idx (fst (update m hi lo i s)) = Some i"
    by (simp add: side_idx_def)
  from k t n show "swing_high (fst (update m hi lo i s)) \<noteq> hi"
    by (simp add: side_price_def)
next
  assume a: "last_confirmed_type s = Some Low \<and> valid_bar hi lo \<and> fl_lt (swing_high s) hi
      \<and> fl_lt lo (swing_low s)"
  then have k: "side_price Low (fst (update m hi lo i s)) = side_price Low (tracked hi lo i s)
       \<and> side_idx Low (fst (update m hi lo i s)) = side_idx Low (tracked hi lo i s)"
    by (intro other_side_kept) simp_all
  from a have t: "swing_low (tracked hi lo i s) = PInf
      \<and> swing_low_idx (tracked hi lo i s) = Some i"
    using tracked_new_high [of s hi lo i] by simp
  from a have n: "lo \<noteq> PInf" using fl_lt_not_PInf by blast
  from k t show "swing_low (fst (update m hi lo i s)) = PInf"
    by (simp add: side_price_def)
  from k t show "swing_low_idx (fst (update m hi lo i s)) = Some i"
    by (simp add: side_idx_def)
  from k t n show "swing_low (fst (update m hi lo i s)) \<noteq> lo"
    by (simp add: side_price_def)
qed

theorem opposite_extreme_suppressed_witness:
  "last_confirmed_type (run PyFloat scenario_engine scenario_bars) = Some High
   \<and> valid_bar (Fin 97) (Fin 94)
   \<and> fl_lt (Fin 94) (swing_low (run PyFloat scenario_engine scenario_bars))
   \<and> fl_gt (Fin 97) (swing_high (run PyFloat scenario_engine scenario_bars))
   \<and> swing_high (fst (update PyFloat (Fin 97) (Fin 94) 3
        (run PyFloat scenario_engine scenario_bars))) = NInf
   \<and> last_confirmed_type (run PyFloat scenario_engine (take 2 scenario_bars)) = Some Low
   \<and> valid_bar (Fin 111) (Fin 100)
   \<and> fl_lt (swing_high (run PyFloat scenario_engine (take 2 scenario_bars))) (Fin 111)
   \<and> fl_lt (Fin 100) (swing_low (run PyFloat scenario_engine (take 2 scenario_bars)))
   \<and> swing_low (fst (update PyFloat (Fin 111) (Fin 100) 2
        (run PyFloat scenario_engine (take 2 scenario_bars)))) = PInf"
proof -
  have h: "last_confirmed_type (run PyFloat scenario_engine scenario_bars) = Some High
   \<and> valid_bar (Fin 97) (Fin 94)
   \<and> fl_lt (Fin 94) (swing_low (run PyFloat scenario_engine scenario_bars))
   \<and> fl_gt (Fin 97) (swing_high (run PyFloat scenario_engine scenario_bars))"
    by (simp add: scenario_engine_def scenario_bars_def eval_defs)
  have l: "last_confirmed_type (run PyFloat scenario_engine (take 2 scenario_bars)) = Some Low
   \<and> valid_bar (Fin 111) (Fin 100)
   \<and> fl_lt (swing_high (run PyFloat scenario_engine (take 2 scenario_bars))) (Fin 111)
   \<and> fl_lt (Fin 100) (swing_low (run PyFloat scenario_engine (take 2 scenario_bars)))"
    by (simp add: scenario_engine_def scenario_bars_def eval_defs)
  from opposite_extreme_suppressed [THEN conjunct1, THEN mp, OF h]
       opposite_extreme_suppressed [THEN conjunct2, THEN mp, OF l] h l
  show ?thesis by blast
qed

section \<open>The candidate after a pivot has been confirmed\<close>

text \<open>
  Claim C6. Take a call of \<^verbatim>\<open>update\<close> on a valid bar that returns, in an object whose
  last confirmed pivot is a High: after the call \<^verbatim>\<open>candidate_price\<close> and
  \<^verbatim>\<open>candidate_idx\<close> are the current \<open>swing_low\<close> and \<open>swing_low_idx\<close>, whether or not
  the call confirmed a pivot (after a confirmation these are the sentinel and the
  bar's index, as \<^verbatim>\<open>_reset_swings\<close> left them). When the last confirmed pivot is a Low
  the candidate is the current \<open>swing_high\<close> and \<open>swing_high_idx\<close>. Such a call does
  return in every consistent object, the one exception being a Python float zero as the
  reference of \<^verbatim>\<open>_pct_change\<close>, which raises \<^verbatim>\<open>ZeroDivisionError\<close>.
\<close>

theorem candidate_is_current_swing:
  fixes s :: "('i::linorder) engine"
  shows
  "(valid_bar hi lo \<and> last_confirmed_type s = Some High
      \<and> update m hi lo i s = (s', Returned r) \<longrightarrow>
      candidate_price s' = Some (swing_low s') \<and> candidate_idx s' = swing_low_idx s')
   \<and> (valid_bar hi lo \<and> last_confirmed_type s = Some Low
      \<and> update m hi lo i s = (s', Returned r) \<longrightarrow>
      candidate_price s' = Some (swing_high s') \<and> candidate_idx s' = swing_high_idx s')
   \<and> (valid_bar hi lo \<and> last_confirmed_type s = Some u \<and> consistent s
      \<and> (m = NpFloat64 \<or> side_price (other u) (tracked hi lo i s) \<noteq> Fin 0) \<longrightarrow>
      snd (update m hi lo i s) = Returned None)"
proof (intro conjI impI)
  assume a: "valid_bar hi lo \<and> last_confirmed_type s = Some High
      \<and> update m hi lo i s = (s', Returned r)"
  then have "candidate_price s' = Some (side_price (other High) s')
       \<and> candidate_idx s' = side_idx (other High) s'"
    by (intro update_candidate [of hi lo s High m i s' r]) simp_all
  then show "candidate_price s' = Some (swing_low s')" "candidate_idx s' = swing_low_idx s'"
    by (simp_all add: side_price_def side_idx_def)
next
  assume a: "valid_bar hi lo \<and> last_confirmed_type s = Some Low
      \<and> update m hi lo i s = (s', Returned r)"
  then have "candidate_price s' = Some (side_price (other Low) s')
       \<and> candidate_idx s' = side_idx (other Low) s'"
    by (intro update_candidate [of hi lo s Low m i s' r]) simp_all
  then show "candidate_price s' = Some (swing_high s')" "candidate_idx s' = swing_high_idx s'"
    by (simp_all add: side_price_def side_idx_def)
next
  assume "valid_bar hi lo \<and> last_confirmed_type s = Some u \<and> consistent s
      \<and> (m = NpFloat64 \<or> side_price (other u) (tracked hi lo i s) \<noteq> Fin 0)"
  then show "snd (update m hi lo i s) = Returned None"
    by (intro update_returns [of hi lo s u m i]) simp_all
qed

theorem candidate_is_current_swing_witness:
  "valid_bar (Fin 97) (Fin 94)
   \<and> last_confirmed_type (run PyFloat scenario_engine scenario_bars) = Some High
   \<and> consistent (run PyFloat scenario_engine scenario_bars)
   \<and> snd (update PyFloat (Fin 97) (Fin 94) 3 (run PyFloat scenario_engine scenario_bars))
       = Returned None
   \<and> candidate_price (fst (update PyFloat (Fin 97) (Fin 94) 3
        (run PyFloat scenario_engine scenario_bars))) = Some (Fin 94)
   \<and> swing_low (fst (update PyFloat (Fin 97) (Fin 94) 3
        (run PyFloat scenario_engine scenario_bars))) = Fin 94
   \<and> valid_bar (Fin 96) (Fin 95)
   \<and> last_confirmed_type (run PyFloat scenario_engine (take 2 scenario_bars)) = Some Low
   \<and> candidate_price (fst (update PyFloat (Fin 96) (Fin 95) 2
        (run PyFloat scenario_engine (take 2 scenario_bars)))) = Some NInf
   \<and> swing_high (fst (update PyFloat (Fin 96) (Fin 95) 2
        (run PyFloat scenario_engine (take 2 scenario_bars)))) = NInf"
proof -
  let ?S = "run PyFloat scenario_engine scenario_bars"
  let ?T = "run PyFloat scenario_engine (take 2 scenario_bars)"
  have c: "consistent ?S"
    by (intro consistent_run consistent_init [OF scenario_engine_init])
  have h: "valid_bar (Fin 97) (Fin 94) \<and> last_confirmed_type ?S = Some High
      \<and> update PyFloat (Fin 97) (Fin 94) 3 ?S
          = (fst (update PyFloat (Fin 97) (Fin 94) 3 ?S), Returned None)"
    by (simp add: scenario_engine_def scenario_bars_def eval_defs)
  have l: "valid_bar (Fin 96) (Fin 95) \<and> last_confirmed_type ?T = Some Low
      \<and> update PyFloat (Fin 96) (Fin 95) 2 ?T
          = (fst (update PyFloat (Fin 96) (Fin 95) 2 ?T), Returned None)"
    by (simp add: scenario_engine_def scenario_bars_def eval_defs)
  have z: "side_price (other High) (tracked (Fin 97) (Fin 94) 3 ?S) \<noteq> Fin 0"
    by (simp add: scenario_engine_def scenario_bars_def tracked_def eval_defs)
  have v: "swing_low (fst (update PyFloat (Fin 97) (Fin 94) 3 ?S)) = Fin 94"
    "swing_high (fst (update PyFloat (Fin 96) (Fin 95) 2 ?T)) = NInf"
    by (simp_all add: scenario_engine_def scenario_bars_def eval_defs)
  have t: "valid_bar (Fin 97) (Fin 94) \<and> last_confirmed_type ?S = Some High \<and> consistent ?S
      \<and> (PyFloat = NpFloat64 \<or> side_price (other High) (tracked (Fin 97) (Fin 94) 3 ?S) \<noteq> Fin 0)"
    using h c z by simp
  from candidate_is_current_swing [THEN conjunct1, THEN mp, OF h]
       candidate_is_current_swing [THEN conjunct2, THEN conjunct1, THEN mp, OF l]
       candidate_is_current_swing [THEN conjunct2, THEN conjunct2, THEN mp, OF t]
       h l c v
  show ?thesis by simp
qed

section \<open>Invalid bars\<close>

text \<open>
  Claim C5. A bar is invalid when its high or its low is NaN or its high is below its low.
  For every object, a call of \<^verbatim>\<open>update\<close> on an invalid bar appends one row for the bar
  to the history (with no pivot in it) and records its position, returns \<^verbatim>\<open>None\<close>, and
  changes nothing else: the swing extremes and their indices, the candidate, the
  last confirmed pivot, the flag \<^verbatim>\<open>confirmed\<close> and the debug trace are as before, and
  the call confirms no pivot. The bar never becomes a pivot later either: in every
  consistent object (every object reached from a constructed one is consistent), the
  pivots confirmed along a stream that contains the invalid bar are exactly those
  confirmed along the stream without it.
\<close>

theorem invalid_bar_absorbed:
  fixes s :: "('i::linorder) engine"
  shows
  "\<not> valid_bar hi lo \<longrightarrow>
     update m hi lo i s =
       (s \<lparr> historic_dic := \<lparr> col_index = col_index (historic_dic s) @ [i],
                              col_High = col_High (historic_dic s) @ [hi],
                              col_Low = col_Low (historic_dic s) @ [lo],
                              col_ZigZag = col_ZigZag (historic_dic s) @ [NaN],
                              col_type = col_type (historic_dic s) @ [None] \<rparr>,
            index_to_pos := (index_to_pos s)(i \<mapsto> length (col_index (historic_dic s))) \<rparr>,
        Returned None)
     \<and> core (fst (update m hi lo i s)) = core s
     \<and> confirmed_by m s \<lparr> bar_high = hi, bar_low = lo, bar_idx = i \<rparr> = None
     \<and> (consistent s \<longrightarrow>
          confirmations m s (xs @ \<lparr> bar_high = hi, bar_low = lo, bar_idx = i \<rparr> # ys)
            = confirmations m s (xs @ ys))"
proof (intro impI conjI)
  assume nv: "\<not> valid_bar hi lo"
  let ?b = "\<lparr> bar_high = hi, bar_low = lo, bar_idx = i \<rparr>"
  have nb: "\<not> valid_bar (bar_high ?b) (bar_low ?b)" using nv by simp
  show "update m hi lo i s =
       (s \<lparr> historic_dic := \<lparr> col_index = col_index (historic_dic s) @ [i],
                              col_High = col_High (historic_dic s) @ [hi],
                              col_Low = col_Low (historic_dic s) @ [lo],
                              col_ZigZag = col_ZigZag (historic_dic s) @ [NaN],
                              col_type = col_type (historic_dic s) @ [None] \<rparr>,
            index_to_pos := (index_to_pos s)(i \<mapsto> length (col_index (historic_dic s))) \<rparr>,
        Returned None)"
    using nv by (simp add: update_invalid update_df_def Let_def)
  show "core (fst (update m hi lo i s)) = core s"
    using nv by (simp add: update_invalid)
  show "confirmed_by m s ?b = None"
    using nb by (rule step_invalid)
  show "confirmations m s (xs @ ?b # ys) = confirmations m s (xs @ ys)" if "consistent s"
    using nb that by (rule confirmations_skip_invalid)
qed

theorem invalid_bar_absorbed_witness:
  "\<not> valid_bar (Fin 90) (Fin 91) \<and> \<not> valid_bar NaN (Fin 91)
   \<and> consistent (run PyFloat scenario_engine (take 1 scenario_bars))
   \<and> core (fst (update PyFloat (Fin 90) (Fin 91) 7
        (run PyFloat scenario_engine (take 1 scenario_bars))))
       = core (run PyFloat scenario_engine (take 1 scenario_bars))
   \<and> core (fst (update PyFloat NaN (Fin 91) 7
        (run PyFloat scenario_engine (take 1 scenario_bars))))
       = core (run PyFloat scenario_engine (take 1 scenario_bars))
   \<and> confirmations PyFloat (run PyFloat scenario_engine (take 1 scenario_bars))
        ([] @ \<lparr> bar_high = Fin 90, bar_low = Fin 91, bar_idx = 7 \<rparr> # drop 1 scenario_bars)
       = confirmations PyFloat (run PyFloat scenario_engine (take 1 scenario_bars))
        ([] @ drop 1 scenario_bars)"
proof -
  have a: "\<not> valid_bar (Fin 90) (Fin 91)" and b: "\<not> valid_bar NaN (Fin 91)"
    by (simp_all add: valid_bar_def isna_def)
  have c: "consistent (run PyFloat scenario_engine (take 1 scenario_bars))"
    by (intro consistent_run consistent_init [OF scenario_engine_init])
  from invalid_bar_absorbed [THEN mp, OF a] invalid_bar_absorbed [THEN mp, OF b] a b c
  show ?thesis by blast
qed

section \<open>Before the first pivot: both extremes on the same bar\<close>




section \<open>Swings at their sentinels\<close>

text \<open>
  Claim C7, as stated, fails: right after construction both \<^verbatim>\<open>swing_high\<close> and
  \<^verbatim>\<open>swing_low\<close> are at their sentinels, and they are again after the three falling bars
  with negative prices (high -1, low -2), (high -3, low -4), (high -5, low -6) have been
  fed to an object built with threshold 0.05: the second call confirms a High and
  resets \<^verbatim>\<open>swing_high\<close>; the third call lowers \<^verbatim>\<open>swing_low\<close> to -6, which resets
  \<^verbatim>\<open>swing_high\<close> again, and the change from -6 to minus infinity relative to -6 is plus
  infinity, so the Low is confirmed at once and \<^verbatim>\<open>swing_low\<close> is reset as well.
\<close>

theorem both_sentinels_counterexample:
  "init (Fin (5 / 100)) False = Inr scenario_engine
   \<and> swing_high scenario_engine = NInf \<and> swing_low scenario_engine = PInf
   \<and> swing_high (run PyFloat scenario_engine negative_bars) = NInf
   \<and> swing_low (run PyFloat scenario_engine negative_bars) = PInf"
  by (simp add: scenario_engine_def negative_bars_def eval_defs)


text \<open>
  Claim C7, amended. Take an object as the constructor returns it and feed it any stream
  of bars, in either numeric mode. If every valid bar of the stream has finite, strictly
  positive high and low and the stream has at least one valid bar, then afterwards
  \<^verbatim>\<open>swing_high\<close> and \<^verbatim>\<open>swing_low\<close> are not both at their sentinels; if \<^verbatim>\<open>swing_high\<close>
  is at its sentinel then the last confirmed pivot is a High, and if \<^verbatim>\<open>swing_low\<close> is at
  its sentinel then the last confirmed pivot is a Low (the side reset by the last
  confirmation). If the stream has no valid bar, both swings are still at their sentinels.
\<close>

theorem sentinel_sides:
  fixes s0 :: "('i::linorder) engine"
  shows
  "(init p d = Inr s0
      \<and> (\<forall>b\<in>set bs. valid_bar (bar_high b) (bar_low b) \<longrightarrow> positive_bar b)
      \<and> (\<exists>b\<in>set bs. valid_bar (bar_high b) (bar_low b)) \<longrightarrow>
      \<not> (swing_high (run m s0 bs) = NInf \<and> swing_low (run m s0 bs) = PInf)
      \<and> (swing_high (run m s0 bs) = NInf \<longrightarrow> last_confirmed_type (run m s0 bs) = Some High)
      \<and> (swing_low (run m s0 bs) = PInf \<longrightarrow> last_confirmed_type (run m s0 bs) = Some Low))
   \<and> (init p d = Inr s0 \<and> (\<forall>b\<in>set bs. \<not> valid_bar (bar_high b) (bar_low b)) \<longrightarrow>
      swing_high (run m s0 bs) = NInf \<and> swing_low (run m s0 bs) = PInf)"
proof (intro conjI impI)
  assume a: "init p d = Inr s0
      \<and> (\<forall>b\<in>set bs. valid_bar (bar_high b) (bar_low b) \<longrightarrow> positive_bar b)
      \<and> (\<exists>b\<in>set bs. valid_bar (bar_high b) (bar_low b))"
  then have "init p d = Inr s0" by (rule conjunct1)
  then have f: "fresh s0" by (rule fresh_init)
  from a fresh_run [OF f, of bs m] have st: "settled (run m s0 bs)" by simp
  from settled_sentinels(1) [OF st]
  show "\<not> (swing_high (run m s0 bs) = NInf \<and> swing_low (run m s0 bs) = PInf)" .
  show "last_confirmed_type (run m s0 bs) = Some High" if "swing_high (run m s0 bs) = NInf"
    using st that by (rule settled_sentinels(2))
  show "last_confirmed_type (run m s0 bs) = Some Low" if "swing_low (run m s0 bs) = PInf"
    using st that by (rule settled_sentinels(3))
next
  assume a: "init p d = Inr s0 \<and> (\<forall>b\<in>set bs. \<not> valid_bar (bar_high b) (bar_low b))"
  then have "init p d = Inr s0" by (rule conjunct1)
  then have f: "fresh s0" by (rule fresh_init)
  from a fresh_run [OF f, of bs m] have "fresh (run m s0 bs)" by simp
  then show "swing_high (run m s0 bs) = NInf" "swing_low (run m s0 bs) = PInf"
    by (simp_all add: fresh_def)
qed

theorem sentinel_sides_witness:
  "init (Fin (5 / 100)) False = Inr scenario_engine
   \<and> (\<exists>b\<in>set scenario_bars. valid_bar (bar_high b) (bar_low b))
   \<and> \<not> (swing_high (run PyFloat scenario_engine scenario_bars) = NInf
         \<and> swing_low (run PyFloat scenario_engine scenario_bars) = PInf)
   \<and> swing_high (run PyFloat scenario_engine scenario_bars) = NInf
   \<and> last_confirmed_type (run PyFloat scenario_engine scenario_bars) = Some High
   \<and> swing_high (run PyFloat scenario_engine []) = NInf
   \<and> swing_low (run PyFloat scenario_engine []) = PInf"
proof -
  have i: "init (Fin (5 / 100)) False = Inr scenario_engine" by (rule scenario_engine_init)
  have p: "\<forall>b\<in>set scenario_bars. valid_bar (bar_high b) (bar_low b) \<longrightarrow> positive_bar b"
    by (simp add: scenario_bars_def positive_bar_def pos_fin_def)
  have e: "\<exists>b\<in>set scenario_bars. valid_bar (bar_high b) (bar_low b)"
    by (simp add: scenario_bars_def valid_bar_def isna_def)
  have n: "\<forall>b\<in>set ([] :: int bar list). \<not> valid_bar (bar_high b) (bar_low b)" by simp
  have h: "swing_high (run PyFloat scenario_engine scenario_bars) = NInf"
    by (simp add: scenario_engine_def scenario_bars_def eval_defs)
  from sentinel_sides [THEN conjunct1, THEN mp, of "Fin (5 / 100)" False scenario_engine
         scenario_bars PyFloat]
       sentinel_sides [THEN conjunct2, THEN mp, of "Fin (5 / 100)" False scenario_engine
         "[]" PyFloat]
       i p e n h
  show ?thesis by simp
qed


section \<open>The threshold between consecutive pivots\<close>

text \<open>
  Claim C2, as stated, fails on negative prices. The object built with threshold 0.05
  and fed the bars (high -1, low -2), (high -3, low -4), (high -5, low -6) confirms the
  High -1 at index 0 and then the Low -6 at index 2, and \<open>|-6 - (-1)| / (-1) = -5\<close>,
  which is below 0.05.
\<close>

theorem threshold_negative_counterexample:
  "init (Fin (5 / 100)) False = Inr scenario_engine
   \<and> confirmations PyFloat scenario_engine negative_bars =
       [\<lparr> p_price = Fin (- 1), p_index = 0, p_type = High \<rparr>,
        \<lparr> p_price = Fin (- 6), p_index = 2, p_type = Low \<rparr>]
   \<and> fl_div (fl_abs (fl_sub (Fin (- 6)) (Fin (- 1)))) (Fin (- 1)) = Fin (- 5)
   \<and> \<not> moved (Fin (- 1)) (Fin (- 6)) (Fin (5 / 100))"
  by (simp add: scenario_engine_def negative_bars_def moved_def eval_defs)

text \<open>
  Claim C2, amended. Take an object as the constructor returns it, with threshold
  \<open>p\<close>, and feed it any stream of bars, in either numeric mode. For every two pivots
  confirmed one after the other, \<open>P\<close> and then \<open>Q\<close>, if the price of \<open>P\<close> is finite and
  strictly positive then \<open>|Q.price - P.price| / P.price >= p\<close>. If moreover every valid
  bar of the stream has finite, strictly positive high and low, then every confirmed
  pivot has a finite, strictly positive price, so the inequality holds for every pair of
  consecutive pivots. Prices are exact reals here: rounding is not modelled.
\<close>

theorem threshold_between_pivots:
  fixes s0 :: "('i::linorder) engine"
  shows
  "(init p d = Inr s0 \<longrightarrow> threshold_chain p (confirmations m s0 bs))
   \<and> (init p d = Inr s0
        \<and> (\<forall>b\<in>set bs. valid_bar (bar_high b) (bar_low b) \<longrightarrow> positive_bar b) \<longrightarrow>
      (\<forall>x\<in>set (confirmations m s0 bs). pos_fin (p_price x)))"
proof (rule conjI)
  show "init p d = Inr s0 \<longrightarrow> threshold_chain p (confirmations m s0 bs)"
  proof (rule impI)
    assume i: "init p d = Inr s0"
    then have f: "far s0" and p: "pct s0 = p" by (simp_all add: far_init)
    from threshold_from_confirmations [OF f, of m bs] p
    have "threshold_from (last_confirmed_price s0) p (confirmations m s0 bs)" by simp
    then show "threshold_chain p (confirmations m s0 bs)" by (rule threshold_from_chain)
  qed
  show "init p d = Inr s0
        \<and> (\<forall>b\<in>set bs. valid_bar (bar_high b) (bar_low b) \<longrightarrow> positive_bar b) \<longrightarrow>
      (\<forall>x\<in>set (confirmations m s0 bs). pos_fin (p_price x))"
  proof (rule impI)
    assume a: "init p d = Inr s0
        \<and> (\<forall>b\<in>set bs. valid_bar (bar_high b) (bar_low b) \<longrightarrow> positive_bar b)"
    then have "init p d = Inr s0" by (rule conjunct1)
    then have "fresh s0" by (rule fresh_init)
    then have "fresh s0 \<or> settled s0" by simp
    moreover from a have "\<forall>b\<in>set bs. valid_bar (bar_high b) (bar_low b) \<longrightarrow> positive_bar b"
      by (rule conjunct2)
    ultimately show "\<forall>x\<in>set (confirmations m s0 bs). pos_fin (p_price x)"
      by (rule positive_confirmations)
  qed
qed

theorem threshold_between_pivots_witness:
  "init (Fin (5 / 100)) False = Inr scenario_engine
   \<and> confirmations PyFloat scenario_engine scenario_bars =
       [\<lparr> p_price = Fin 99, p_index = 0, p_type = Low \<rparr>,
        \<lparr> p_price = Fin 110, p_index = 1, p_type = High \<rparr>]
   \<and> pos_fin (Fin 99) \<and> pos_fin (Fin 110)
   \<and> moved (Fin 99) (Fin 110) (Fin (5 / 100))"
proof -
  have i: "init (Fin (5 / 100)) False = Inr scenario_engine" by (rule scenario_engine_init)
  have c: "confirmations PyFloat scenario_engine scenario_bars =
       [\<lparr> p_price = Fin 99, p_index = 0, p_type = Low \<rparr>,
        \<lparr> p_price = Fin 110, p_index = 1, p_type = High \<rparr>]"
    by (simp add: scenario_engine_def scenario_bars_def eval_defs)
  have p: "\<forall>b\<in>set scenario_bars. valid_bar (bar_high b) (bar_low b) \<longrightarrow> positive_bar b"
    by (simp add: scenario_bars_def positive_bar_def pos_fin_def)
  from threshold_between_pivots [THEN conjunct1, THEN mp, of "Fin (5 / 100)" False
         scenario_engine PyFloat scenario_bars]
       threshold_between_pivots [THEN conjunct2, THEN mp, of "Fin (5 / 100)" False
         scenario_engine scenario_bars PyFloat]
       i c p
  show ?thesis by simp
qed


end
